theory Spec2Isabelle
  imports Main "HOL-Library.AList" "HOL-Library.Monad_Syntax"
begin

section \<open>JavaScript values\<close>

text \<open>
  The route helper works on plain JavaScript data: a route, its class and the API
  declaration are object literals whose fields may be missing or hold a value of any
  kind. A value is therefore one datatype.

  \<^item> An object is the list of its own properties in insertion order; an array is dense.
  \<^item> A number is given by the text that \<open>String\<close> prints for it (\<open>5\<close>,
    \<open>0.5\<close>, \<open>-3\<close>, \<open>1e+21\<close>, \<open>NaN\<close>). The code does two things with a
    number, it tests it and it prints it, and two numbers print alike only when they
    are the two zeros, which also test alike. How JavaScript prints a number is the
    language's business, not this code's.
  \<^item> A function is opaque. It is given by its name, its length (the number of its
    parameters) and its source text, which is what \<open>String\<close> prints; it has no other
    property. The model cannot run a function: the data holds none under the name of a
    method that the code calls or that JavaScript calls to print an object
    (\<open>split\<close>, \<open>filter\<close>, \<open>toString\<close> and the like).
  \<^item> Characters are ASCII.

  Values are trees: two places of a value never hold the same object. Where the source
  lets one object be reached from two places, the owner of the object is written out
  (see \<open>owner\<close> below).

  The only error the code can raise is a \<open>TypeError\<close> (a property read on
  \<open>undefined\<close> or \<open>null\<close>, a call of a method the value does not
  have). A function that can raise returns an \<open>option\<close>, and \<open>None\<close>
  is the \<open>TypeError\<close>; what a call has written before it raises is not
  described.
\<close>

datatype jsval =
    Undefined
  | Null
  | Bool bool
  | Num string
  | Str string
  | Arr "jsval list"
  | Obj "(string \<times> jsval) list"
  | Fun string nat string

text \<open>\<open>if (v)\<close>, \<open>!v\<close>, \<open>v || w\<close>, \<open>v && w\<close>: the falsy values are
  \<open>undefined\<close>, \<open>null\<close>, \<open>false\<close>, the empty string, and the numbers
  \<open>0\<close>, \<open>-0\<close> (both print \<open>0\<close>) and \<open>NaN\<close>.\<close>

fun truthy :: "jsval \<Rightarrow> bool" where
  "truthy Undefined = False"
| "truthy Null = False"
| "truthy (Bool b) = b"
| "truthy (Num n) = (n \<noteq> ''0'' \<and> n \<noteq> ''NaN'')"
| "truthy (Str s) = (s \<noteq> [])"
| "truthy (Arr xs) = True"
| "truthy (Obj kvs) = True"
| "truthy (Fun name n src) = True"

text \<open>\<open>typeof v === 'function'\<close>.\<close>

fun is_function :: "jsval \<Rightarrow> bool" where
  "is_function (Fun name n src) = True"
| "is_function v = False"

text \<open>\<open>Array.isArray(v)\<close>.\<close>

fun isArray :: "jsval \<Rightarrow> bool" where
  "isArray (Arr xs) = True"
| "isArray v = False"

text \<open>The own property \<open>k\<close> of an object, \<open>undefined\<close> when it has none.\<close>

definition lookup :: "(string \<times> jsval) list \<Rightarrow> string \<Rightarrow> jsval" where
  "lookup kvs k = (case map_of kvs k of None \<Rightarrow> Undefined | Some v \<Rightarrow> v)"

text \<open>The decimal digits of a natural number: how \<open>String\<close> prints a length.\<close>

fun digits :: "nat \<Rightarrow> string" where
  "digits n =
     (if n < 10 then [''0123456789'' ! n]
      else digits (n div 10) @ [''0123456789'' ! (n mod 10)])"

declare digits.simps [simp del]

text \<open>
  The value of \<open>v.k\<close> for a name \<open>k\<close> (an index is read by \<open>get0\<close> below),
  where \<open>v\<close> is not \<open>undefined\<close> or \<open>null\<close>: an own property of an object,
  the name and the length of a function, the length of an array and of a string, and
  \<open>undefined\<close> for anything else.
\<close>

fun field :: "jsval \<Rightarrow> string \<Rightarrow> jsval" where
  "field (Obj kvs) k = lookup kvs k"
| "field (Fun name n src) k =
     (if k = ''name'' then Str name else if k = ''length'' then Num (digits n) else Undefined)"
| "field (Arr xs) k = (if k = ''length'' then Num (digits (length xs)) else Undefined)"
| "field (Str s) k = (if k = ''length'' then Num (digits (length s)) else Undefined)"
| "field v k = Undefined"

text \<open>The read \<open>v.k\<close>: on \<open>undefined\<close> and \<open>null\<close> it raises.\<close>

fun get :: "jsval \<Rightarrow> string \<Rightarrow> jsval option" where
  "get Undefined k = None"
| "get Null k = None"
| "get v k = Some (field v k)"

text \<open>The read \<open>v[0]\<close>: the first element of an array, the first character of a
  string, the property \<open>"0"\<close> of an object.\<close>

fun get0 :: "jsval \<Rightarrow> jsval option" where
  "get0 Undefined = None"
| "get0 Null = None"
| "get0 (Arr []) = Some Undefined"
| "get0 (Arr (x # xs)) = Some x"
| "get0 (Str []) = Some Undefined"
| "get0 (Str (c # cs)) = Some (Str [c])"
| "get0 (Obj kvs) = Some (lookup kvs ''0'')"
| "get0 v = Some Undefined"

text \<open>The write \<open>v.k = w\<close> on an object: an existing property keeps its place, a
  new one goes last. The source writes only to values it has just read a property
  from, which are objects.\<close>

fun set_prop :: "jsval \<Rightarrow> string \<Rightarrow> jsval \<Rightarrow> jsval" where
  "set_prop (Obj kvs) k w = Obj (AList.update k w kvs)"
| "set_prop v k w = v"

text \<open>Calling a method of \<open>String.prototype\<close> on \<open>v\<close> (\<open>split\<close>,
  \<open>toLowerCase\<close>, \<open>replace\<close>): only a string has it.\<close>

fun str_of :: "jsval \<Rightarrow> string option" where
  "str_of (Str s) = Some s"
| "str_of v = None"

text \<open>The receiver of an array method in \<open>(v || []).filter(...)\<close>,
  \<open>(v || []).map(...)\<close>: the elements of \<open>v\<close>, none when \<open>v\<close> is falsy,
  and a \<open>TypeError\<close> when \<open>v\<close> is truthy and not an array.\<close>

fun or_empty :: "jsval \<Rightarrow> jsval list option" where
  "or_empty (Arr xs) = Some xs"
| "or_empty v = (if truthy v then None else Some [])"

text \<open>\<open>xs.map(f)\<close> with a callback that may raise: the first error ends the loop.\<close>

primrec traverse :: "('a \<Rightarrow> 'b option) \<Rightarrow> 'a list \<Rightarrow> 'b list option" where
  "traverse f [] = Some []"
| "traverse f (x # xs) =
     (case f x of None \<Rightarrow> None
      | Some y \<Rightarrow> (case traverse f xs of None \<Rightarrow> None | Some ys \<Rightarrow> Some (y # ys)))"

subsection \<open>Strings\<close>

text \<open>\<open>s.split(c)\<close> for a one-character separator.\<close>

fun split :: "char \<Rightarrow> string \<Rightarrow> string list" where
  "split sep [] = [[]]"
| "split sep (c # cs) =
     (if c = sep then [] # split sep cs
      else (case split sep cs of [] \<Rightarrow> [[c]] | w # ws \<Rightarrow> (c # w) # ws))"

text \<open>\<open>ws.join(sep)\<close> on an array of strings.\<close>

fun join :: "string \<Rightarrow> string list \<Rightarrow> string" where
  "join sep [] = []"
| "join sep [w] = w"
| "join sep (w # ws) = w @ sep @ join sep ws"

definition toLowerCase :: "string \<Rightarrow> string" where
  "toLowerCase s =
     map (\<lambda>c. case map_of (zip ''ABCDEFGHIJKLMNOPQRSTUVWXYZ'' ''abcdefghijklmnopqrstuvwxyz'') c of
               None \<Rightarrow> c | Some d \<Rightarrow> d) s"

definition toUpperCase :: "string \<Rightarrow> string" where
  "toUpperCase s =
     map (\<lambda>c. case map_of (zip ''abcdefghijklmnopqrstuvwxyz'' ''ABCDEFGHIJKLMNOPQRSTUVWXYZ'') c of
               None \<Rightarrow> c | Some d \<Rightarrow> d) s"

text \<open>\<open>s.indexOf(t)\<close>: the first position at which \<open>t\<close> occurs in \<open>s\<close>, or -1.\<close>

fun indexOf :: "string \<Rightarrow> string \<Rightarrow> int" where
  "indexOf [] t = (if t = [] then 0 else -1)"
| "indexOf (c # cs) t =
     (if take (length t) (c # cs) = t then 0
      else (let i = indexOf cs t in if i = -1 then -1 else i + 1))"

text \<open>\<open>String(v)\<close>, which is also what \<open>'...' + v\<close> appends. A number prints
  as the text it is given by, a function as its source, an object as
  \<open>[object Object]\<close>, and an array prints its elements joined by commas,
  \<open>undefined\<close> and \<open>null\<close> elements as nothing.\<close>

fun toStr :: "jsval \<Rightarrow> string" where
  "toStr Undefined = ''undefined''"
| "toStr Null = ''null''"
| "toStr (Bool b) = (if b then ''true'' else ''false'')"
| "toStr (Num n) = n"
| "toStr (Str s) = s"
| "toStr (Arr xs) =
     join '','' (map (\<lambda>x. if x = Undefined \<or> x = Null then [] else toStr x) xs)"
| "toStr (Obj kvs) = ''[object Object]''"
| "toStr (Fun name n src) = src"

section \<open>The key translator (translate-keys.js)\<close>

text \<open>The table \<open>KEY_TRANSLATIONS\<close>, in the order \<open>Object.keys\<close> lists it.\<close>

definition KEY_TRANSLATIONS :: "(string \<times> string) list" where
  "KEY_TRANSLATIONS =
     [(''doc'', ''description''), (''default'', ''defaultValue''),
      (''min'', ''minimum''), (''max'', ''maximum'')]"

text \<open>The body of the \<open>forEach\<close> callback for one entry of the table, on the
  properties of the object.\<close>

definition translateKey :: "string \<times> string \<Rightarrow> (string \<times> jsval) list \<Rightarrow> (string \<times> jsval) list" where
  "translateKey entry object =
     (let LDLKey = fst entry;
          val = lookup object LDLKey;
          object1 =
            (if truthy val then
               AList.update (snd entry)
                 (if LDLKey = ''min'' \<or> LDLKey = ''max'' then Str (toStr val) else val) object
             else object)
      in AList.delete LDLKey object1)"

text \<open>
  \<open>translateKeys(object)\<close> changes the object in place and returns it: the result is
  the object's new state. On \<open>undefined\<close> and \<open>null\<close> the first read raises. Any
  other value that is not an object has none of the four properties, so nothing is
  written, and deleting a property it does not have does nothing.
\<close>

fun translateKeys :: "jsval \<Rightarrow> jsval option" where
  "translateKeys Undefined = None"
| "translateKeys Null = None"
| "translateKeys (Obj kvs) = Some (Obj (fold translateKey KEY_TRANSLATIONS kvs))"
| "translateKeys v = Some v"

section \<open>The route converter (route-helper.js)\<close>

subsection \<open>Guarded reads\<close>

text \<open>The value of \<open>v && v.k\<close>: \<open>v\<close> itself when it is falsy, else the
  property.\<close>

definition guarded_get :: "jsval \<Rightarrow> string \<Rightarrow> jsval" where
  "guarded_get v k = (if truthy v then field v k else v)"

text \<open>The value of \<open>v && v[0]\<close>.\<close>

fun guarded_get0 :: "jsval \<Rightarrow> jsval" where
  "guarded_get0 (Arr []) = Undefined"
| "guarded_get0 (Arr (x # xs)) = x"
| "guarded_get0 (Str []) = Str []"
| "guarded_get0 (Str (c # cs)) = Str [c]"
| "guarded_get0 (Obj kvs) = lookup kvs ''0''"
| "guarded_get0 v = (if truthy v then Undefined else v)"

text \<open>The new state of \<open>v\<close> after a write to the object \<open>v[0]\<close>, whose new
  state is \<open>w\<close>.\<close>

fun set0 :: "jsval \<Rightarrow> jsval \<Rightarrow> jsval" where
  "set0 (Arr (x # xs)) w = Arr (w # xs)"
| "set0 (Obj kvs) w = Obj (AList.update ''0'' w kvs)"
| "set0 v w = v"

subsection \<open>Data types, verbs and paths\<close>

text \<open>\<open>prepareDataType(type)\<close>, lines 208-228.\<close>

definition prepareDataType :: "jsval \<Rightarrow> jsval" where
  "prepareDataType type =
     (if \<not> truthy type then Str ''void''
      else if isArray type then Str ''array''
      else if type = Str ''buffer'' then Str ''byte''
      else if type = Str ''date'' then Str ''Date''
      else if type = Str ''number'' then Str ''double''
      else type)"

text \<open>\<open>convertVerb(verb)\<close>, lines 139-149.\<close>

definition convertVerb :: "jsval \<Rightarrow> jsval option" where
  "convertVerb verb = do {
     v \<leftarrow> str_of verb;
     Some (Str (if toLowerCase v = ''all'' then ''POST''
                else if toLowerCase v = ''del'' then ''DELETE''
                else toUpperCase v))
   }"

text \<open>The callback of \<open>convertPathFragments\<close>, lines 131-136.\<close>

fun convertFragment :: "string \<Rightarrow> string" where
  "convertFragment [] = []"
| "convertFragment (c # cs) = (if c = CHR '':'' then ''{'' @ cs @ ''}'' else c # cs)"

text \<open>\<open>convertPathFragments(path)\<close>, lines 130-137.\<close>

definition convertPathFragments :: "jsval \<Rightarrow> jsval option" where
  "convertPathFragments path = do {
     p \<leftarrow> str_of path;
     Some (Str (join ''/'' (map convertFragment (split CHR ''/'' p))))
   }"

subsection \<open>The parameter mapper\<close>

text \<open>\<open>route.path.indexOf(t) !== -1\<close>. A string searches for a substring, an
  array for an element that is the string \<open>t\<close>; no other value has \<open>indexOf\<close>.\<close>

fun path_has :: "jsval \<Rightarrow> string \<Rightarrow> bool option" where
  "path_has (Str s) t = Some (indexOf s t \<noteq> - 1)"
| "path_has (Arr xs) t = Some (Str t \<in> set xs)"
| "path_has v t = None"

text \<open>
  The function that \<open>acceptToParameter(route)\<close> returns, lines 163-201, in its three
  steps; \<open>type\<close> is the default the outer call has chosen. First the object \<open>out\<close>
  of lines 164-187.
\<close>

definition parameterBase :: "jsval \<Rightarrow> string \<Rightarrow> jsval \<Rightarrow> jsval option" where
  "parameterBase route type accepts = do {
     name0 \<leftarrow> get accepts ''name'';
     arg \<leftarrow> get accepts ''arg'';
     let name = (if truthy name0 then name0 else arg);
     path \<leftarrow> get route ''path'';
     inPath \<leftarrow> path_has path (CHR '':'' # toStr name);
     let paramType = (if inPath then Str ''path'' else Str type);
     http \<leftarrow> get accepts ''http'';
     let source = guarded_get http ''source'';
     let paramType = (if truthy source then source else paramType);
     description \<leftarrow> get accepts ''description'';
     model \<leftarrow> get accepts ''model'';
     atype \<leftarrow> get accepts ''type'';
     required \<leftarrow> get accepts ''required'';
     defaultValue \<leftarrow> get accepts ''defaultValue'';
     minimum \<leftarrow> get accepts ''minimum'';
     maximum \<leftarrow> get accepts ''maximum'';
     Some (Obj
       [(''paramType'', if truthy paramType then paramType else Str type),
        (''name'', name),
        (''description'', description),
        (''type'', if truthy model then model else prepareDataType atype),
        (''required'', Bool (truthy required)),
        (''defaultValue'', defaultValue),
        (''minimum'', minimum),
        (''maximum'', maximum),
        (''allowMultiple'', Bool False)])
   }"

text \<open>Lines 189-192: a parameter \<open>data\<close> of type \<open>object\<close> takes the first
  segment of the route's method as its type.\<close>

definition deriveTypeFromModel :: "jsval \<Rightarrow> jsval \<Rightarrow> jsval option" where
  "deriveTypeFromModel route out =
     (if field out ''name'' = Str ''data'' \<and> field out ''type'' = Str ''object'' then do {
        method \<leftarrow> get route ''method'';
        m \<leftarrow> str_of method;
        Some (set_prop out ''type''
          (case split CHR ''.'' m of [] \<Rightarrow> Undefined | w # ws \<Rightarrow> Str w))
      } else Some out)"

text \<open>Lines 194-198: a parameter of type \<open>array\<close> gets \<open>items\<close>, read from
  \<open>accepts.type[0]\<close>.\<close>

definition attachItems :: "jsval \<Rightarrow> jsval \<Rightarrow> jsval option" where
  "attachItems accepts out =
     (if field out ''type'' = Str ''array'' then do {
        atype \<leftarrow> get accepts ''type'';
        t0 \<leftarrow> get0 atype;
        Some (set_prop out ''items'' (Obj [(''type'', prepareDataType t0)]))
      } else Some out)"

definition parameterOf :: "jsval \<Rightarrow> string \<Rightarrow> jsval \<Rightarrow> jsval option" where
  "parameterOf route type accepts = do {
     out \<leftarrow> parameterBase route type accepts;
     out \<leftarrow> deriveTypeFromModel route out;
     attachItems accepts out
   }"

text \<open>\<open>acceptToParameter(route)\<close>, lines 156-202: the outer call reads the verb
  and returns the mapper.\<close>

definition acceptToParameter :: "jsval \<Rightarrow> (jsval \<Rightarrow> jsval option) option" where
  "acceptToParameter route = do {
     verb \<leftarrow> get route ''verb'';
     v \<leftarrow> str_of verb;
     Some (parameterOf route (if toLowerCase v = ''get'' then ''query'' else ''form''))
   }"

subsection \<open>From a route to an API record\<close>

text \<open>\<open>routeToAPI(route)\<close>, lines 112-128.\<close>

definition routeToAPI :: "jsval \<Rightarrow> jsval option" where
  "routeToAPI route = do {
     returns \<leftarrow> get route ''returns'';
     let returnDesc = guarded_get0 returns;
     rpath \<leftarrow> get route ''path'';
     path \<leftarrow> convertPathFragments rpath;
     verb \<leftarrow> get route ''verb'';
     method \<leftarrow> convertVerb verb;
     rmethod \<leftarrow> get route ''method'';
     m \<leftarrow> str_of rmethod;
     let nickname = Str (map (\<lambda>c. if c = CHR ''.'' then CHR ''_'' else c) m);
     let type =
       (if truthy returnDesc then
          (if truthy (field returnDesc ''model'') then field returnDesc ''model''
           else prepareDataType (field returnDesc ''type''))
        else Str ''void'');
     let items = (if truthy returnDesc then field returnDesc ''items'' else Str []);
     accepts \<leftarrow> get route ''accepts'';
     parameters \<leftarrow>
       (if truthy accepts then
          (case accepts of
             Arr xs \<Rightarrow> do { f \<leftarrow> acceptToParameter route; traverse f xs }
           | _ \<Rightarrow> None)
        else Some []);
     summary \<leftarrow> get route ''description'';
     Some (Obj
       [(''path'', path),
        (''operations'', Arr [Obj
           [(''method'', method),
            (''nickname'', nickname),
            (''type'', type),
            (''items'', items),
            (''parameters'', Arr parameters),
            (''responseMessages'', Arr []),
            (''summary'', summary),
            (''notes'', Str [])]])])
   }"

subsection \<open>Merging into the document\<close>

text \<open>The new state of a list after a write to its first element that satisfies
  \<open>P\<close> (the element \<open>matchingAPIs[0]\<close> of the filtered list).\<close>

fun update_first :: "('a \<Rightarrow> bool) \<Rightarrow> ('a \<Rightarrow> 'a) \<Rightarrow> 'a list \<Rightarrow> 'a list" where
  "update_first P f [] = []"
| "update_first P f (x # xs) = (if P x then f x # xs else x # update_first P f xs)"

text \<open>
  \<open>addRouteToDoc(route, doc)\<close>, lines 45-55; the result is the new state of
  \<open>doc\<close>. The \<open>filter\<close> callback reads the path of every existing API, and
  \<open>existingAPI.path === api.path\<close> holds when the existing path is the same string,
  \<open>api.path\<close> being a string.
\<close>

definition addRouteToDoc :: "jsval \<Rightarrow> jsval \<Rightarrow> jsval option" where
  "addRouteToDoc route doc = do {
     api \<leftarrow> routeToAPI route;
     operation \<leftarrow> get0 (field api ''operations'');
     apis \<leftarrow> get doc ''apis'';
     (case apis of
        Arr existing \<Rightarrow> do {
          paths \<leftarrow> traverse (\<lambda>existingAPI. get existingAPI ''path'') existing;
          let same = (\<lambda>existingAPI. field existingAPI ''path'' = field api ''path'');
          let matchingAPIs = filter same existing;
          (case matchingAPIs of
             [] \<Rightarrow> Some (set_prop doc ''apis'' (Arr (existing @ [api])))
           | m # ms \<Rightarrow>
               (case field m ''operations'' of
                  Arr ops \<Rightarrow>
                    Some (set_prop doc ''apis'' (Arr (update_first same
                      (\<lambda>a. set_prop a ''operations'' (Arr (ops @ [operation]))) existing)))
                | _ \<Rightarrow> None))
        }
      | _ \<Rightarrow> None)
   }"

subsection \<open>Normalising a route\<close>

text \<open>
  \<open>_cloneDeep(route)\<close>: the copy has the value of the original and shares no object
  with it. Every write below goes to the copy, so the state of the caller's route is
  not among the results.
\<close>

definition cloneDeep :: "jsval \<Rightarrow> jsval" where
  "cloneDeep v = v"

text \<open>
  \<open>xs.concat(v)\<close> copies references, not objects, so an entry of the list of accepted
  arguments is an object of the copied route or an object of the class. Each entry is
  kept with its owner: the copied route, the entry \<open>i\<close> of
  \<open>classDef.sharedCtor.accepts\<close>, or (when that is not an array and \<open>concat\<close> appends
  it as one element) \<open>classDef.sharedCtor.accepts\<close> itself.
\<close>

datatype owner = Route | CtorArg nat | CtorAccepts

type_synonym cell = "owner \<times> jsval"

text \<open>The elements \<open>concat\<close> appends for its argument.\<close>

fun concat_arg :: "jsval \<Rightarrow> cell list" where
  "concat_arg (Arr ys) = zip (map CtorArg [0..<length ys]) ys"
| "concat_arg v = [(CtorAccepts, v)]"

text \<open>\<open>classDef && classDef.sharedCtor && classDef.sharedCtor.accepts\<close>.\<close>

definition sharedCtorAccepts :: "jsval \<Rightarrow> jsval" where
  "sharedCtorAccepts classDef = guarded_get (guarded_get classDef ''sharedCtor'') ''accepts''"

text \<open>
  Lines 68-71, up to the receiver \<open>(route.accepts || [])\<close> of line 75: the accepted
  arguments the filter will see. With the shared constructor's arguments appended the
  receiver is the array \<open>concat\<close> made; otherwise it is the route's own list. A truthy
  \<open>route.accepts\<close> that is not an array has no \<open>filter\<close> (a string has
  \<open>concat\<close>, which gives a string).
\<close>

definition acceptsWithSharedCtor :: "jsval \<Rightarrow> jsval \<Rightarrow> cell list option" where
  "acceptsWithSharedCtor route classDef = do {
     method \<leftarrow> get route ''method'';
     m \<leftarrow> str_of method;
     let split = split CHR ''.'' m;
     let shared = sharedCtorAccepts classDef;
     accepts \<leftarrow> get route ''accepts'';
     own \<leftarrow> or_empty accepts;
     Some (map (Pair Route) own @
           (if truthy shared \<and> length split > 2 then concat_arg shared else []))
   }"

text \<open>The callback of the filter, lines 75-82.\<close>

definition keepArg :: "jsval \<Rightarrow> bool option" where
  "keepArg arg = do {
     http \<leftarrow> get arg ''http'';
     Some (if \<not> truthy http then True
           else if is_function http then False
           else if field http ''source'' = Str ''req'' \<or> field http ''source'' = Str ''body''
           then False
           else True)
   }"

text \<open>\<open>xs.filter(f)\<close> with a callback that may raise.\<close>

primrec filterM :: "('a \<Rightarrow> bool option) \<Rightarrow> 'a list \<Rightarrow> 'a list option" where
  "filterM f [] = Some []"
| "filterM f (x # xs) =
     (case f x of None \<Rightarrow> None
      | Some b \<Rightarrow> (case filterM f xs of None \<Rightarrow> None
                  | Some ys \<Rightarrow> Some (if b then x # ys else ys)))"

text \<open>Lines 85-95, the fix of the return type; the result is the new state of the
  copied route.\<close>

definition fixReturnType :: "jsval \<Rightarrow> jsval \<Rightarrow> jsval option" where
  "fixReturnType route classDef = do {
     rs \<leftarrow> get route ''returns'';
     let returns = guarded_get0 rs;
     (if truthy returns \<and> field returns ''arg'' = Str ''data'' then
        (if field returns ''type'' = Str ''object'' then do {
           name \<leftarrow> get classDef ''name'';
           Some (set_prop route ''returns'' (set0 rs (set_prop returns ''type'' name)))
         } else if field returns ''type'' = Str ''array'' then do {
           name \<leftarrow> get classDef ''name'';
           Some (set_prop route ''returns''
             (set0 rs (set_prop (set_prop returns ''type'' (Str ''array'')) ''items''
                (Obj [(''$ref'', name)]))))
         } else Some route)
      else Some route)
   }"

text \<open>The new state of \<open>classDef\<close> after a write to the object of a cell, whose new
  state is the cell's value.\<close>

fun writeBack :: "cell \<Rightarrow> jsval \<Rightarrow> jsval" where
  "writeBack (Route, v) classDef = classDef"
| "writeBack (CtorArg i, v) classDef =
     (let sharedCtor = field classDef ''sharedCtor'' in
      set_prop classDef ''sharedCtor''
        (set_prop sharedCtor ''accepts''
           (case field sharedCtor ''accepts'' of
              Arr ys \<Rightarrow> Arr (ys[i := v])
            | a \<Rightarrow> a)))"
| "writeBack (CtorAccepts, v) classDef =
     (let sharedCtor = field classDef ''sharedCtor'' in
      set_prop classDef ''sharedCtor'' (set_prop sharedCtor ''accepts'' v))"

text \<open>\<open>translateKeys\<close> on the object of a cell.\<close>

definition translateCell :: "cell \<Rightarrow> cell option" where
  "translateCell c = map_option (Pair (fst c)) (translateKeys (snd c))"

text \<open>
  \<open>doRouteParameterHacks(route, classDef)\<close>, lines 64-104. The results are the
  processed route, which is returned, and the new state of \<open>classDef\<close>, whose objects
  \<open>translateKeys\<close> has written to where they are among the accepted arguments.
\<close>

definition doRouteParameterHacks :: "jsval \<Rightarrow> jsval \<Rightarrow> (jsval \<times> jsval) option" where
  "doRouteParameterHacks route classDef = do {
     let route = cloneDeep route;
     cells \<leftarrow> acceptsWithSharedCtor route classDef;
     kept \<leftarrow> filterM (\<lambda>c. keepArg (snd c)) cells;
     let route = set_prop route ''accepts'' (Arr (map snd kept));
     route \<leftarrow> fixReturnType route classDef;
     translated \<leftarrow> traverse translateCell kept;
     let route = set_prop route ''accepts'' (Arr (map snd translated));
     rs \<leftarrow> get route ''returns'';
     returns \<leftarrow> or_empty rs;
     returns \<leftarrow> traverse translateKeys returns;
     let route = set_prop route ''returns'' (Arr returns);
     Some (route, fold writeBack translated classDef)
   }"

text \<open>
  \<open>addRouteToAPIDeclaration(route, classDef, doc)\<close>, lines 26-34. The call returns
  nothing; the results are the new states of \<open>classDef\<close> and of \<open>doc\<close>.
\<close>

definition addRouteToAPIDeclaration :: "jsval \<Rightarrow> jsval \<Rightarrow> jsval \<Rightarrow> (jsval \<times> jsval) option" where
  "addRouteToAPIDeclaration route classDef doc = do {
     (processedRoute, classDef') \<leftarrow> doRouteParameterHacks route classDef;
     doc' \<leftarrow> addRouteToDoc processedRoute doc;
     Some (classDef', doc')
   }"

subsection \<open>Sequences of calls\<close>

text \<open>The paths of the document's APIs, in order.\<close>

definition apiPaths :: "jsval \<Rightarrow> jsval list" where
  "apiPaths doc = (case field doc ''apis'' of Arr existing \<Rightarrow> map (\<lambda>a. field a ''path'') existing | _ \<Rightarrow> [])"

text \<open>
  A sequence of calls of \<open>addRouteToAPIDeclaration\<close> on one document, each with its
  route and with its class in the state the class has at that call (so a class an
  earlier call has written to is given as it then is). A call that raises ends the
  sequence.
\<close>

fun addRoutes :: "(jsval \<times> jsval) list \<Rightarrow> jsval \<Rightarrow> jsval option" where
  "addRoutes [] doc = Some doc"
| "addRoutes ((route, classDef) # calls) doc =
     (case addRouteToAPIDeclaration route classDef doc of
        None \<Rightarrow> None
      | Some (classDef', doc') \<Rightarrow> addRoutes calls doc')"

section \<open>Properties of the key translator\<close>

lemma map_of_translateKey:
  "map_of (translateKey (src, dst) kvs) k =
     (if k = src then None
      else if k = dst \<and> truthy (lookup kvs src)
        then Some (if src = ''min'' \<or> src = ''max'' then Str (toStr (lookup kvs src))
                   else lookup kvs src)
      else map_of kvs k)"
  by (simp add: translateKey_def Let_def AList.delete_conv' AList.update_conv')

lemma lookup_translateKey:
  "k \<noteq> src \<Longrightarrow> k \<noteq> dst \<Longrightarrow> lookup (translateKey (src, dst) kvs) k = lookup kvs k"
  by (simp add: lookup_def map_of_translateKey)

lemma translateKeys_Obj:
  "translateKeys (Obj kvs) =
     Some (Obj (translateKey (''max'', ''maximum'') (translateKey (''min'', ''minimum'')
       (translateKey (''default'', ''defaultValue'') (translateKey (''doc'', ''description'') kvs)))))"
  by (simp add: KEY_TRANSLATIONS_def)

lemma translateKey_absent:
  assumes "src \<notin> fst ` set kvs"
  shows "translateKey (src, dst) kvs = kvs"
proof -
  from assms have "map_of kvs src = None" by (simp add: map_of_eq_None_iff)
  with assms show ?thesis
    by (simp add: translateKey_def lookup_def)
qed

lemma keys_translateKey:
  "fst ` set (translateKey (src, dst) kvs) \<subseteq> insert dst (fst ` set kvs) - {src}"
proof -
  have "fst ` set (translateKey (src, dst) kvs) = dom (map_of (translateKey (src, dst) kvs))"
    by (simp add: dom_map_of_conv_image_fst)
  also have "\<dots> \<subseteq> insert dst (dom (map_of kvs)) - {src}"
    by (auto simp: map_of_translateKey split: if_splits)
  finally show ?thesis by (simp add: dom_map_of_conv_image_fst)
qed

lemma translateKeys_twice: "translateKeys v \<bind> translateKeys = translateKeys v"
proof (cases v)
  case (Obj kvs)
  let ?a = "translateKey (''doc'', ''description'') kvs"
  let ?b = "translateKey (''default'', ''defaultValue'') ?a"
  let ?c = "translateKey (''min'', ''minimum'') ?b"
  let ?d = "translateKey (''max'', ''maximum'') ?c"
  have a: "''doc'' \<notin> fst ` set ?a"
    using keys_translateKey[of "''doc''" "''description''" kvs] by auto
  have b: "''doc'' \<notin> fst ` set ?b" "''default'' \<notin> fst ` set ?b"
    using keys_translateKey[of "''default''" "''defaultValue''" ?a] a by auto
  have c: "''doc'' \<notin> fst ` set ?c" "''default'' \<notin> fst ` set ?c" "''min'' \<notin> fst ` set ?c"
    using keys_translateKey[of "''min''" "''minimum''" ?b] b by auto
  have d: "''doc'' \<notin> fst ` set ?d" "''default'' \<notin> fst ` set ?d"
    "''min'' \<notin> fst ` set ?d" "''max'' \<notin> fst ` set ?d"
    using keys_translateKey[of "''max''" "''maximum''" ?c] c by auto
  show ?thesis unfolding Obj
    by (simp add: translateKeys_Obj translateKey_absent d del: translateKeys.simps)
qed simp_all

lemma translateKeys_sources_absent:
  assumes "translateKeys v = Some (Obj kvs')" and "src \<in> fst ` set KEY_TRANSLATIONS"
  shows "map_of kvs' src = None"
proof (cases v)
  case (Obj kvs)
  from assms(2) have src: "src = ''doc'' \<or> src = ''default'' \<or> src = ''min'' \<or> src = ''max''"
    by (simp add: KEY_TRANSLATIONS_def)
  from assms(1) Obj have kvs': "kvs' = translateKey (''max'', ''maximum'') (translateKey (''min'', ''minimum'')
       (translateKey (''default'', ''defaultValue'') (translateKey (''doc'', ''description'') kvs)))"
    by (simp add: translateKeys_Obj del: translateKeys.simps)
  from src show ?thesis unfolding kvs'
    by (elim disjE) (simp_all add: map_of_translateKey)
qed (use assms in simp_all)



text \<open>
  C9. \<open>translateKeys\<close> is idempotent: applying it to its own result gives that
  result again, for every value (and raises where the first application raises); after
  one application none of the four source keys is a key of the object.
\<close>

theorem translateKeys_idempotent:
  "(translateKeys v \<bind> translateKeys) = translateKeys v \<and>
   (\<forall>kvs'. translateKeys v = Some (Obj kvs') \<longrightarrow>
      (\<forall>src \<in> fst ` set KEY_TRANSLATIONS. map_of kvs' src = None))"
proof (intro conjI allI impI ballI)
  show "translateKeys v \<bind> translateKeys = translateKeys v"
    by (rule translateKeys_twice)
next
  fix kvs' src
  assume "translateKeys v = Some (Obj kvs')" and "src \<in> fst ` set KEY_TRANSLATIONS"
  then show "map_of kvs' src = None"
    by (rule translateKeys_sources_absent)
qed

theorem translateKeys_idempotent_witness:
  "translateKeys (Obj [(''doc'', Str ''the id''), (''min'', Num ''5'')])
     = Some (Obj [(''description'', Str ''the id''), (''minimum'', Str ''5'')]) \<and>
   translateKeys (Obj [(''description'', Str ''the id''), (''minimum'', Str ''5'')])
     = Some (Obj [(''description'', Str ''the id''), (''minimum'', Str ''5'')]) \<and>
   map_of [(''description'', Str ''the id''), (''minimum'', Str ''5'')] ''doc'' = None \<and>
   map_of [(''description'', Str ''the id''), (''minimum'', Str ''5'')] ''min'' = None"
proof -
  have r: "translateKeys (Obj [(''doc'', Str ''the id''), (''min'', Num ''5'')])
     = Some (Obj [(''description'', Str ''the id''), (''minimum'', Str ''5'')])"
    by (simp add: KEY_TRANSLATIONS_def translateKey_def lookup_def)
  from translateKeys_idempotent [of "Obj [(''doc'', Str ''the id''), (''min'', Num ''5'')]"]
  show ?thesis unfolding r by simp
qed

section \<open>Properties of the parameter mapper\<close>

lemma get_field: "get v k = (if v = Undefined \<or> v = Null then None else Some (field v k))"
  by (cases v) simp_all

lemma get_Some_field: "v \<noteq> Undefined \<Longrightarrow> v \<noteq> Null \<Longrightarrow> get v k = Some (field v k)"
  by (simp add: get_field)

lemma get_SomeD: "get v k = Some w \<Longrightarrow> v \<noteq> Undefined \<and> v \<noteq> Null \<and> w = field v k"
  by (cases v) auto

lemma field_set_prop_other: "k' \<noteq> k \<Longrightarrow> field (set_prop v k w) k' = field v k'"
  by (cases v) (simp_all add: lookup_def AList.update_conv')

lemma field_set_prop_same: "field (set_prop (Obj kvs) k w) k = w"
  by (simp add: lookup_def AList.update_conv')

lemma parameterBase_nullish:
  "parameterBase route type Undefined = None" "parameterBase route type Null = None"
  by (simp_all add: parameterBase_def)

lemma parameterBase_eq:
  assumes "accepts \<noteq> Undefined" "accepts \<noteq> Null"
  shows "parameterBase route type accepts =
     get route ''path'' \<bind> (\<lambda>path.
     path_has path (CHR '':'' # toStr (if truthy (field accepts ''name'')
                                       then field accepts ''name'' else field accepts ''arg'')) \<bind>
     (\<lambda>inPath.
     Some (Obj
       [(''paramType'',
          if truthy (guarded_get (field accepts ''http'') ''source'')
          then guarded_get (field accepts ''http'') ''source''
          else if inPath then Str ''path'' else Str type),
        (''name'', if truthy (field accepts ''name'') then field accepts ''name''
                   else field accepts ''arg''),
        (''description'', field accepts ''description''),
        (''type'', if truthy (field accepts ''model'') then field accepts ''model''
                   else prepareDataType (field accepts ''type'')),
        (''required'', Bool (truthy (field accepts ''required''))),
        (''defaultValue'', field accepts ''defaultValue''),
        (''minimum'', field accepts ''minimum''),
        (''maximum'', field accepts ''maximum''),
        (''allowMultiple'', Bool False)])))"
  unfolding parameterBase_def get_Some_field[OF assms] Let_def
  apply (simp only: bind.bind_lunit)
  apply (rule arg_cong[where f="Option.bind (get route ''path'')"])
  apply (rule ext)
  apply (rule arg_cong[where f="Option.bind _"])
  apply (rule ext)
  apply (cases "truthy (guarded_get (field accepts ''http'') ''source'')")
   apply simp_all
  done

text \<open>What the first step leaves in the fields of \<open>out\<close>.\<close>

lemma parameterBase_fields:
  assumes "parameterBase route type accepts = Some out"
  shows "accepts \<noteq> Undefined" and "accepts \<noteq> Null" and "\<exists>kvs. out = Obj kvs"
    and "\<exists>path inPath. get route ''path'' = Some path \<and>
           path_has path (CHR '':'' # toStr (if truthy (field accepts ''name'')
             then field accepts ''name'' else field accepts ''arg'')) = Some inPath \<and>
           field out ''paramType'' =
             (if truthy (guarded_get (field accepts ''http'') ''source'')
              then guarded_get (field accepts ''http'') ''source''
              else if inPath then Str ''path'' else Str type)"
    and "field out ''name'' = (if truthy (field accepts ''name'') then field accepts ''name''
                               else field accepts ''arg'')"
    and "field out ''type'' = (if truthy (field accepts ''model'') then field accepts ''model''
                               else prepareDataType (field accepts ''type''))"
proof -
  show nn: "accepts \<noteq> Undefined" "accepts \<noteq> Null"
    using assms parameterBase_nullish by auto
  from assms obtain path inPath where
    path: "get route ''path'' = Some path"
    and inPath: "path_has path (CHR '':'' # toStr (if truthy (field accepts ''name'')
             then field accepts ''name'' else field accepts ''arg'')) = Some inPath"
    unfolding parameterBase_eq[OF nn] by (auto split: bind_splits)
  from assms have "Some out = Some (Obj
       [(''paramType'',
          if truthy (guarded_get (field accepts ''http'') ''source'')
          then guarded_get (field accepts ''http'') ''source''
          else if inPath then Str ''path'' else Str type),
        (''name'', if truthy (field accepts ''name'') then field accepts ''name''
                   else field accepts ''arg''),
        (''description'', field accepts ''description''),
        (''type'', if truthy (field accepts ''model'') then field accepts ''model''
                   else prepareDataType (field accepts ''type'')),
        (''required'', Bool (truthy (field accepts ''required''))),
        (''defaultValue'', field accepts ''defaultValue''),
        (''minimum'', field accepts ''minimum''),
        (''maximum'', field accepts ''maximum''),
        (''allowMultiple'', Bool False)])"
    unfolding parameterBase_eq[OF nn] path inPath bind.bind_lunit by (rule sym)
  then have out: "out = Obj
       [(''paramType'',
          if truthy (guarded_get (field accepts ''http'') ''source'')
          then guarded_get (field accepts ''http'') ''source''
          else if inPath then Str ''path'' else Str type),
        (''name'', if truthy (field accepts ''name'') then field accepts ''name''
                   else field accepts ''arg''),
        (''description'', field accepts ''description''),
        (''type'', if truthy (field accepts ''model'') then field accepts ''model''
                   else prepareDataType (field accepts ''type'')),
        (''required'', Bool (truthy (field accepts ''required''))),
        (''defaultValue'', field accepts ''defaultValue''),
        (''minimum'', field accepts ''minimum''),
        (''maximum'', field accepts ''maximum''),
        (''allowMultiple'', Bool False)]"
    by (simp only: option.inject)
  show "\<exists>kvs. out = Obj kvs" using out by blast
  show "field out ''name'' = (if truthy (field accepts ''name'') then field accepts ''name''
                               else field accepts ''arg'')"
    unfolding out by (simp add: lookup_def)
  show "field out ''type'' = (if truthy (field accepts ''model'') then field accepts ''model''
                               else prepareDataType (field accepts ''type''))"
    unfolding out by (simp add: lookup_def)
  have "field out ''paramType'' =
             (if truthy (guarded_get (field accepts ''http'') ''source'')
              then guarded_get (field accepts ''http'') ''source''
              else if inPath then Str ''path'' else Str type)"
    unfolding out by (simp add: lookup_def)
  with path inPath show "\<exists>path inPath. get route ''path'' = Some path \<and>
           path_has path (CHR '':'' # toStr (if truthy (field accepts ''name'')
             then field accepts ''name'' else field accepts ''arg'')) = Some inPath \<and>
           field out ''paramType'' =
             (if truthy (guarded_get (field accepts ''http'') ''source'')
              then guarded_get (field accepts ''http'') ''source''
              else if inPath then Str ''path'' else Str type)"
    by blast
qed

lemma deriveTypeFromModel_fields:
  assumes "deriveTypeFromModel route out = Some out'"
  shows "k \<noteq> ''type'' \<Longrightarrow> field out' k = field out k"
    and "field out ''type'' \<noteq> Str ''object'' \<Longrightarrow> out' = out"
    and "out = Obj kvs \<Longrightarrow> \<exists>kvs'. out' = Obj kvs'"
  using assms
  by (auto simp: deriveTypeFromModel_def field_set_prop_other split: if_splits bind_splits)

lemma attachItems_fields:
  assumes "attachItems accepts out = Some out'"
  shows "k \<noteq> ''items'' \<Longrightarrow> field out' k = field out k"
  using assms
  by (auto simp: attachItems_def field_set_prop_other split: if_splits bind_splits)

lemma parameterOf_paramType:
  assumes "parameterOf route type accepts = Some out"
  shows "\<exists>path inPath. get route ''path'' = Some path \<and>
           path_has path (CHR '':'' # toStr (if truthy (field accepts ''name'')
             then field accepts ''name'' else field accepts ''arg'')) = Some inPath \<and>
           field out ''paramType'' =
             (if truthy (guarded_get (field accepts ''http'') ''source'')
              then guarded_get (field accepts ''http'') ''source''
              else if inPath then Str ''path'' else Str type)"
proof -
  from assms obtain o1 o2 where
    o1: "parameterBase route type accepts = Some o1"
    and o2: "deriveTypeFromModel route o1 = Some o2"
    and o3: "attachItems accepts o2 = Some out"
    by (auto simp: parameterOf_def split: bind_splits)
  have "field out ''paramType'' = field o1 ''paramType''"
    using attachItems_fields[OF o3, of "''paramType''"]
      deriveTypeFromModel_fields(1)[OF o2, of "''paramType''"] by simp
  with parameterBase_fields(4)[OF o1] show ?thesis by simp
qed

lemma indexOf_lower: "- 1 \<le> indexOf s t"
  by (induction s) (auto simp: Let_def)

lemma indexOf_found: "indexOf s t \<noteq> - 1 \<longleftrightarrow> (\<exists>a b. s = a @ t @ b)"
proof (induction s)
  case Nil
  then show ?case by simp
next
  case (Cons c cs)
  show ?case
  proof (cases "take (length t) (c # cs) = t")
    case True
    then have "c # cs = [] @ t @ drop (length t) (c # cs)"
      by (metis append_Nil append_take_drop_id)
    then have "\<exists>a b. c # cs = a @ t @ b" by blast
    with True show ?thesis by simp
  next
    case False
    have "(\<exists>a b. c # cs = a @ t @ b) \<longleftrightarrow> (\<exists>a b. cs = a @ t @ b)"
    proof
      assume "\<exists>a b. c # cs = a @ t @ b"
      then obtain a b where ab: "c # cs = a @ t @ b" by blast
      show "\<exists>a b. cs = a @ t @ b"
      proof (cases a)
        case Nil
        with ab have "take (length t) (c # cs) = t" by simp
        with False show ?thesis by simp
      next
        case (Cons x a')
        with ab have "cs = a' @ t @ b" by simp
        then show ?thesis by blast
      qed
    next
      assume "\<exists>a b. cs = a @ t @ b"
      then obtain a b where "cs = a @ t @ b" by blast
      then have "c # cs = (c # a) @ t @ b" by simp
      then show "\<exists>a b. c # cs = a @ t @ b" by blast
    qed
    moreover have "indexOf (c # cs) t \<noteq> - 1 \<longleftrightarrow> indexOf cs t \<noteq> - 1"
      using False indexOf_lower[of cs t] by (simp add: Let_def)
    ultimately show ?thesis using Cons.IH by simp
  qed
qed

lemma acceptToParameter_run:
  assumes "get route ''verb'' = Some (Str verb)"
  shows "acceptToParameter route \<bind> (\<lambda>f. f accepts) =
           parameterOf route (if toLowerCase verb = ''get'' then ''query'' else ''form'') accepts"
  by (simp add: acceptToParameter_def assms)

lemma acceptToParameter_runD:
  assumes "acceptToParameter route \<bind> (\<lambda>f. f accepts) = Some out"
  shows "\<exists>verb. get route ''verb'' = Some (Str verb) \<and>
           parameterOf route (if toLowerCase verb = ''get'' then ''query'' else ''form'') accepts
             = Some out"
proof -
  from assms obtain v where v: "get route ''verb'' = Some v"
    by (auto simp: acceptToParameter_def split: bind_splits)
  with assms obtain verb where "v = Str verb"
    by (cases v) (auto simp: acceptToParameter_def)
  with v assms acceptToParameter_run[of route verb accepts] show ?thesis by simp
qed

lemma parameterOf_items:
  assumes "parameterOf route type accepts = Some out"
    and "field out ''type'' = Str ''array''"
  shows "\<exists>t0. get0 (field accepts ''type'') = Some t0 \<and>
           field out ''items'' = Obj [(''type'', prepareDataType t0)]"
proof -
  from assms(1) obtain o1 o2 where
    o1: "parameterBase route type accepts = Some o1"
    and o2: "deriveTypeFromModel route o1 = Some o2"
    and o3: "attachItems accepts o2 = Some out"
    by (auto simp: parameterOf_def split: bind_splits)
  from parameterBase_fields(1,2)[OF o1] have g: "get accepts ''type'' = Some (field accepts ''type'')"
    by (simp add: get_Some_field)
  from parameterBase_fields(3)[OF o1] deriveTypeFromModel_fields(3)[OF o2]
  obtain kvs where kvs: "o2 = Obj kvs" by blast
  have "field o2 ''type'' = Str ''array''"
    using attachItems_fields[OF o3, of "''type''"] assms(2) by simp
  with o3 show ?thesis
    unfolding attachItems_def g kvs
    by (auto simp: field_set_prop_same simp del: set_prop.simps split: bind_splits)
qed

lemma parameterOf_type_plain:
  assumes "parameterOf route type accepts = Some out"
    and "\<not> truthy (field accepts ''model'')"
    and "prepareDataType (field accepts ''type'') \<noteq> Str ''object''"
  shows "field out ''type'' = prepareDataType (field accepts ''type'')"
proof -
  from assms(1) obtain o1 o2 where
    o1: "parameterBase route type accepts = Some o1"
    and o2: "deriveTypeFromModel route o1 = Some o2"
    and o3: "attachItems accepts o2 = Some out"
    by (auto simp: parameterOf_def split: bind_splits)
  have t1: "field o1 ''type'' = prepareDataType (field accepts ''type'')"
    using parameterBase_fields(6)[OF o1] assms(2) by simp
  with assms(3) have "o2 = o1"
    using deriveTypeFromModel_fields(2)[OF o2] by simp
  with t1 attachItems_fields[OF o3, of "''type''"] show ?thesis by simp
qed

text \<open>The verbs whose lower case is \<open>get\<close>: the eight spellings of the word.\<close>

lemma lower_case_char:
  "(case map_of (zip ''ABCDEFGHIJKLMNOPQRSTUVWXYZ'' ''abcdefghijklmnopqrstuvwxyz'') c of
      None \<Rightarrow> c | Some d \<Rightarrow> d) = CHR ''g'' \<longleftrightarrow> c = CHR ''g'' \<or> c = CHR ''G''"
  "(case map_of (zip ''ABCDEFGHIJKLMNOPQRSTUVWXYZ'' ''abcdefghijklmnopqrstuvwxyz'') c of
      None \<Rightarrow> c | Some d \<Rightarrow> d) = CHR ''e'' \<longleftrightarrow> c = CHR ''e'' \<or> c = CHR ''E''"
  "(case map_of (zip ''ABCDEFGHIJKLMNOPQRSTUVWXYZ'' ''abcdefghijklmnopqrstuvwxyz'') c of
      None \<Rightarrow> c | Some d \<Rightarrow> d) = CHR ''t'' \<longleftrightarrow> c = CHR ''t'' \<or> c = CHR ''T''"
  by (simp_all split: if_splits)

lemma toLowerCase_get:
  "toLowerCase verb = ''get'' \<longleftrightarrow>
     verb \<in> {''get'', ''geT'', ''gEt'', ''gET'', ''Get'', ''GeT'', ''GEt'', ''GET''}"
proof -
  define lc where "lc = (\<lambda>c. case map_of
      (zip ''ABCDEFGHIJKLMNOPQRSTUVWXYZ'' ''abcdefghijklmnopqrstuvwxyz'') c of
      None \<Rightarrow> c | Some d \<Rightarrow> d)"
  have lc: "lc c = CHR ''g'' \<longleftrightarrow> c = CHR ''g'' \<or> c = CHR ''G''"
    "lc c = CHR ''e'' \<longleftrightarrow> c = CHR ''e'' \<or> c = CHR ''E''"
    "lc c = CHR ''t'' \<longleftrightarrow> c = CHR ''t'' \<or> c = CHR ''T''" for c
    unfolding lc_def by (rule lower_case_char)+
  let ?spelt = "\<exists>a b c. verb = [a, b, c] \<and> (a = CHR ''g'' \<or> a = CHR ''G'') \<and>
         (b = CHR ''e'' \<or> b = CHR ''E'') \<and> (c = CHR ''t'' \<or> c = CHR ''T'')"
  let ?listed = "verb \<in> {''get'', ''geT'', ''gEt'', ''gET'', ''Get'', ''GeT'', ''GEt'', ''GET''}"
  have "toLowerCase verb = map lc verb"
    unfolding toLowerCase_def lc_def ..
  moreover have "map lc verb = ''get'' \<longleftrightarrow> ?spelt"
  proof
    assume "map lc verb = ''get''"
    then obtain a b c where "verb = [a, b, c]" "lc a = CHR ''g''" "lc b = CHR ''e''"
      "lc c = CHR ''t''"
      by (cases verb; cases "tl verb"; cases "tl (tl verb)"; cases "tl (tl (tl verb))")
        simp_all
    then show ?spelt
      unfolding lc by (intro exI conjI) assumption+
  next
    assume ?spelt
    then obtain a b c where "verb = [a, b, c]" and "lc a = CHR ''g''" "lc b = CHR ''e''"
      "lc c = CHR ''t''"
      unfolding lc[symmetric] by (elim exE conjE) (rule that; assumption)
    then show "map lc verb = ''get''" by simp
  qed
  moreover have "?spelt \<longleftrightarrow> ?listed"
  proof
    assume ?spelt
    then show ?listed by (elim exE conjE disjE) simp_all
  next
    assume ?listed
    then show ?spelt by (elim insertE emptyE) simp_all
  qed
  ultimately show ?thesis by (simp only:)
qed

text \<open>
  C6. For a route whose verb and path are strings and a parameter the mapper converts,
  the \<open>paramType\<close> of the result is the parameter's \<open>http.source\<close> as it is when
  that is set (truthy, which is the test the code makes); otherwise \<open>path\<close> when the
  route's path contains \<open>:\<close> followed by the resolved name (\<open>name\<close>, else
  \<open>arg\<close>) anywhere, as a plain substring; otherwise \<open>query\<close> when the verb is
  \<open>get\<close> in any of its eight spellings in upper and lower case, and \<open>form\<close> for
  every other verb.
\<close>

theorem paramType_resolution:
  assumes "get route ''verb'' = Some (Str verb)"
    and "get route ''path'' = Some (Str path)"
    and "acceptToParameter route \<bind> (\<lambda>f. f accepts) = Some out"
  shows "field out ''paramType'' =
     (let name = (if truthy (field accepts ''name'') then field accepts ''name''
                  else field accepts ''arg'');
          source = guarded_get (field accepts ''http'') ''source''
      in if truthy source then source
         else if (\<exists>a b. path = a @ (CHR '':'' # toStr name) @ b) then Str ''path''
         else if verb \<in> {''get'', ''geT'', ''gEt'', ''gET'', ''Get'', ''GeT'', ''GEt'', ''GET''}
         then Str ''query''
         else Str ''form'')"
proof -
  let ?name = "if truthy (field accepts ''name'') then field accepts ''name''
               else field accepts ''arg''"
  let ?type = "if toLowerCase verb = ''get'' then ''query'' else ''form''"
  from assms(1,3) have "parameterOf route ?type accepts = Some out"
    by (simp add: acceptToParameter_run)
  from parameterOf_paramType[OF this] assms(2) obtain inPath where
    inPath: "path_has (Str path) (CHR '':'' # toStr ?name) = Some inPath"
    and pt: "field out ''paramType'' =
             (if truthy (guarded_get (field accepts ''http'') ''source'')
              then guarded_get (field accepts ''http'') ''source''
              else if inPath then Str ''path'' else Str ?type)"
    by auto
  from inPath have "inPath \<longleftrightarrow> (\<exists>a b. path = a @ (CHR '':'' # toStr ?name) @ b)"
    using indexOf_found[of path "CHR '':'' # toStr ?name"] by auto
  with pt show ?thesis
    unfolding toLowerCase_get Let_def by (simp only: if_distrib[of Str] cong: if_cong)
qed

theorem paramType_resolution_witness:
  "acceptToParameter (Obj [(''verb'', Str ''GET''), (''path'', Str ''/things/:idle'')])
     \<bind> (\<lambda>f. f (Obj [(''arg'', Str ''id'')]))
   = Some (Obj [(''paramType'', Str ''path''), (''name'', Str ''id''),
       (''description'', Undefined), (''type'', Str ''void''), (''required'', Bool False),
       (''defaultValue'', Undefined), (''minimum'', Undefined), (''maximum'', Undefined),
       (''allowMultiple'', Bool False)]) \<and>
   acceptToParameter (Obj [(''verb'', Str ''GET''), (''path'', Str ''/things/:idle'')])
     \<bind> (\<lambda>f. f (Obj [(''arg'', Str ''limit'')]))
   = Some (Obj [(''paramType'', Str ''query''), (''name'', Str ''limit''),
       (''description'', Undefined), (''type'', Str ''void''), (''required'', Bool False),
       (''defaultValue'', Undefined), (''minimum'', Undefined), (''maximum'', Undefined),
       (''allowMultiple'', Bool False)]) \<and>
   acceptToParameter (Obj [(''verb'', Str ''put''), (''path'', Str ''/things/:idle'')])
     \<bind> (\<lambda>f. f (Obj [(''arg'', Str ''limit'')]))
   = Some (Obj [(''paramType'', Str ''form''), (''name'', Str ''limit''),
       (''description'', Undefined), (''type'', Str ''void''), (''required'', Bool False),
       (''defaultValue'', Undefined), (''minimum'', Undefined), (''maximum'', Undefined),
       (''allowMultiple'', Bool False)]) \<and>
   acceptToParameter (Obj [(''verb'', Str ''GET''), (''path'', Str ''/things/:idle'')])
     \<bind> (\<lambda>f. f (Obj [(''arg'', Str ''id''), (''http'', Obj [(''source'', Str ''header'')])]))
   = Some (Obj [(''paramType'', Str ''header''), (''name'', Str ''id''),
       (''description'', Undefined), (''type'', Str ''void''), (''required'', Bool False),
       (''defaultValue'', Undefined), (''minimum'', Undefined), (''maximum'', Undefined),
       (''allowMultiple'', Bool False)]) \<and>
   acceptToParameter (Obj [(''verb'', Str ''GET''), (''path'', Str ''/things/:idle'')])
     \<bind> (\<lambda>f. f (Fun ''id'' 1 ''function id(a) {}''))
   = Some (Obj [(''paramType'', Str ''path''), (''name'', Str ''id''),
       (''description'', Undefined), (''type'', Str ''void''), (''required'', Bool False),
       (''defaultValue'', Undefined), (''minimum'', Undefined), (''maximum'', Undefined),
       (''allowMultiple'', Bool False)]) \<and>
   acceptToParameter (Obj [(''verb'', Str ''GET''), (''path'', Str ''/things/:idle'')])
     \<bind> (\<lambda>f. f (Obj [(''name'', Str ''limit''), (''arg'', Str ''id'')]))
   = Some (Obj [(''paramType'', Str ''query''), (''name'', Str ''limit''),
       (''description'', Undefined), (''type'', Str ''void''), (''required'', Bool False),
       (''defaultValue'', Undefined), (''minimum'', Undefined), (''maximum'', Undefined),
       (''allowMultiple'', Bool False)])"
proof -
  let ?GET = "Obj [(''verb'', Str ''GET''), (''path'', Str ''/things/:idle'')]"
  let ?put = "Obj [(''verb'', Str ''put''), (''path'', Str ''/things/:idle'')]"
  let ?id = "Obj [(''arg'', Str ''id'')]"
  let ?limit = "Obj [(''arg'', Str ''limit'')]"
  let ?header = "Obj [(''arg'', Str ''id''), (''http'', Obj [(''source'', Str ''header'')])]"
  let ?fn = "Fun ''id'' 1 ''function id(a) {}''"
  let ?both = "Obj [(''name'', Str ''limit''), (''arg'', Str ''id'')]"
  let ?out = "\<lambda>paramType name. Obj [(''paramType'', Str paramType), (''name'', Str name),
       (''description'', Undefined), (''type'', Str ''void''), (''required'', Bool False),
       (''defaultValue'', Undefined), (''minimum'', Undefined), (''maximum'', Undefined),
       (''allowMultiple'', Bool False)]"
  note defs = acceptToParameter_def parameterOf_def parameterBase_def
        deriveTypeFromModel_def attachItems_def prepareDataType_def toLowerCase_def
        guarded_get_def lookup_def Let_def
  have verb: "get ?GET ''verb'' = Some (Str ''GET'')" by (simp add: lookup_def)
  have verb': "get ?put ''verb'' = Some (Str ''put'')" by (simp add: lookup_def)
  have path: "get ?GET ''path'' = Some (Str ''/things/:idle'')" by (simp add: lookup_def)
  have path': "get ?put ''path'' = Some (Str ''/things/:idle'')" by (simp add: lookup_def)
  have run1: "acceptToParameter ?GET \<bind> (\<lambda>f. f ?id) = Some (?out ''path'' ''id'')"
    by (simp add: defs)
  have run2: "acceptToParameter ?GET \<bind> (\<lambda>f. f ?limit) = Some (?out ''query'' ''limit'')"
    by (simp add: defs)
  have run3: "acceptToParameter ?put \<bind> (\<lambda>f. f ?limit) = Some (?out ''form'' ''limit'')"
    by (simp add: defs)
  have run4: "acceptToParameter ?GET \<bind> (\<lambda>f. f ?header) = Some (?out ''header'' ''id'')"
    by (simp add: defs)
  have run5: "acceptToParameter ?GET \<bind> (\<lambda>f. f ?fn) = Some (?out ''path'' ''id'')"
    by (simp add: defs)
  have run6: "acceptToParameter ?GET \<bind> (\<lambda>f. f ?both) = Some (?out ''query'' ''limit'')"
    by (simp add: defs)
  have ex: "\<exists>a b. ''/things/:idle'' = a @ '':id'' @ b"
    by (rule exI[of _ "''/things/''"], rule exI[of _ "''le''"]) simp
  have nex: "\<not> (\<exists>a b. ''/things/:idle'' = a @ '':limit'' @ b)"
    using indexOf_found[of "''/things/:idle''" "'':limit''"] by simp
  from paramType_resolution[OF verb path run1] ex
  have 1: "field (?out ''path'' ''id'') ''paramType'' = Str ''path''"
    by (simp add: lookup_def guarded_get_def)
  from paramType_resolution[OF verb path run2] nex
  have 2: "field (?out ''query'' ''limit'') ''paramType'' = Str ''query''"
    by (simp add: lookup_def guarded_get_def)
  from paramType_resolution[OF verb' path' run3] nex
  have 3: "field (?out ''form'' ''limit'') ''paramType'' = Str ''form''"
    by (simp add: lookup_def guarded_get_def)
  from paramType_resolution[OF verb path run4]
  have 4: "field (?out ''header'' ''id'') ''paramType'' = Str ''header''"
    by (simp add: lookup_def guarded_get_def)
  from paramType_resolution[OF verb path run5] ex
  have 5: "field (?out ''path'' ''id'') ''paramType'' = Str ''path''"
    by (simp add: lookup_def guarded_get_def)
  from paramType_resolution[OF verb path run6] nex
  have 6: "field (?out ''query'' ''limit'') ''paramType'' = Str ''query''"
    by (simp add: lookup_def guarded_get_def)
  from 1 2 3 4 5 6 run1 run2 run3 run4 run5 run6 show ?thesis by simp
qed

text \<open>
  C10. A parameter the mapper converts, with no \<open>model\<close>: when its \<open>type\<close> is
  the string \<open>array\<close>, the result has type \<open>array\<close> and its \<open>items\<close> is
  \<open>{type: 'a'}\<close>, the first character of that string; when its \<open>type\<close> is an array
  with a first element, \<open>items\<close> holds the mapped type of that element. Whenever the
  result has type \<open>array\<close> and the parameter's \<open>type\<close> is a string, \<open>items\<close>
  holds the string's first character.
\<close>

theorem array_string_items:
  assumes "acceptToParameter route \<bind> (\<lambda>f. f accepts) = Some out"
  shows "(\<not> truthy (field accepts ''model'') \<and> field accepts ''type'' = Str ''array'' \<longrightarrow>
            field out ''type'' = Str ''array'' \<and>
            field out ''items'' = Obj [(''type'', Str ''a'')]) \<and>
         (\<forall>t ts. \<not> truthy (field accepts ''model'') \<and> field accepts ''type'' = Arr (t # ts) \<longrightarrow>
            field out ''type'' = Str ''array'' \<and>
            field out ''items'' = Obj [(''type'', prepareDataType t)]) \<and>
         (\<forall>c cs. field out ''type'' = Str ''array'' \<and> field accepts ''type'' = Str (c # cs) \<longrightarrow>
            field out ''items'' = Obj [(''type'', Str [c])])"
proof -
  from acceptToParameter_runD[OF assms] obtain type where
    p: "parameterOf route type accepts = Some out" by blast
  have single: "\<And>c. prepareDataType (Str [c]) = Str [c]"
    by (simp add: prepareDataType_def)
  have a: "field out ''type'' = Str ''array'' \<and> field out ''items'' = Obj [(''type'', Str ''a'')]"
    if "\<not> truthy (field accepts ''model'')" "field accepts ''type'' = Str ''array''"
  proof -
    have t: "field out ''type'' = Str ''array''"
      using parameterOf_type_plain[OF p that(1)] that(2) by (simp add: prepareDataType_def)
    from parameterOf_items[OF p t] that(2) show ?thesis
      using t by (simp add: prepareDataType_def)
  qed
  have b: "field out ''type'' = Str ''array'' \<and>
           field out ''items'' = Obj [(''type'', prepareDataType t)]"
    if "\<not> truthy (field accepts ''model'')" "field accepts ''type'' = Arr (t # ts)" for t ts
  proof -
    have t: "field out ''type'' = Str ''array''"
      using parameterOf_type_plain[OF p that(1)] that(2) by (simp add: prepareDataType_def)
    from parameterOf_items[OF p t] that(2) show ?thesis
      using t by simp
  qed
  have c: "field out ''items'' = Obj [(''type'', Str [c])]"
    if "field out ''type'' = Str ''array''" "field accepts ''type'' = Str (c # cs)" for c cs
    using parameterOf_items[OF p that(1)] that(2) single by simp
  from a b c show ?thesis by blast
qed

theorem array_string_items_witness:
  "acceptToParameter (Obj [(''verb'', Str ''post''), (''path'', Str ''/things''),
       (''method'', Str ''Thing.create'')])
     \<bind> (\<lambda>f. f (Obj [(''arg'', Str ''tags''), (''type'', Str ''array'')]))
   = Some (Obj [(''paramType'', Str ''form''), (''name'', Str ''tags''),
       (''description'', Undefined), (''type'', Str ''array''), (''required'', Bool False),
       (''defaultValue'', Undefined), (''minimum'', Undefined), (''maximum'', Undefined),
       (''allowMultiple'', Bool False), (''items'', Obj [(''type'', Str ''a'')])]) \<and>
   acceptToParameter (Obj [(''verb'', Str ''post''), (''path'', Str ''/things''),
       (''method'', Str ''Thing.create'')])
     \<bind> (\<lambda>f. f (Obj [(''arg'', Str ''tags''), (''type'', Arr [Str ''number''])]))
   = Some (Obj [(''paramType'', Str ''form''), (''name'', Str ''tags''),
       (''description'', Undefined), (''type'', Str ''array''), (''required'', Bool False),
       (''defaultValue'', Undefined), (''minimum'', Undefined), (''maximum'', Undefined),
       (''allowMultiple'', Bool False), (''items'', Obj [(''type'', Str ''double'')])])"
proof -
  let ?route = "Obj [(''verb'', Str ''post''), (''path'', Str ''/things''),
       (''method'', Str ''Thing.create'')]"
  let ?a1 = "Obj [(''arg'', Str ''tags''), (''type'', Str ''array'')]"
  let ?a2 = "Obj [(''arg'', Str ''tags''), (''type'', Arr [Str ''number''])]"
  have 1: "\<exists>out. acceptToParameter ?route \<bind> (\<lambda>f. f ?a1) = Some out"
    by (simp add: acceptToParameter_def parameterOf_def parameterBase_def
        deriveTypeFromModel_def attachItems_def prepareDataType_def toLowerCase_def
        guarded_get_def lookup_def Let_def)
  have 2: "acceptToParameter ?route \<bind> (\<lambda>f. f ?a2) = Some (Obj [(''paramType'', Str ''form''), (''name'', Str ''tags''),
       (''description'', Undefined), (''type'', Str ''array''), (''required'', Bool False),
       (''defaultValue'', Undefined), (''minimum'', Undefined), (''maximum'', Undefined),
       (''allowMultiple'', Bool False), (''items'', Obj [(''type'', Str ''double'')])])"
    by (simp add: acceptToParameter_def parameterOf_def parameterBase_def
        deriveTypeFromModel_def attachItems_def prepareDataType_def toLowerCase_def
        guarded_get_def lookup_def Let_def)
  from 1 obtain out where out: "acceptToParameter ?route \<bind> (\<lambda>f. f ?a1) = Some out" by blast
  from array_string_items[OF out]
  have "field out ''type'' = Str ''array'' \<and> field out ''items'' = Obj [(''type'', Str ''a'')]"
    by (simp add: lookup_def)
  moreover from out have "out = Obj [(''paramType'', Str ''form''), (''name'', Str ''tags''),
       (''description'', Undefined), (''type'', Str ''array''), (''required'', Bool False),
       (''defaultValue'', Undefined), (''minimum'', Undefined), (''maximum'', Undefined),
       (''allowMultiple'', Bool False), (''items'', field out ''items'')]"
    by (simp add: acceptToParameter_def parameterOf_def parameterBase_def
        deriveTypeFromModel_def attachItems_def prepareDataType_def toLowerCase_def
        guarded_get_def lookup_def Let_def) (auto simp: lookup_def)
  ultimately have "out = Obj [(''paramType'', Str ''form''), (''name'', Str ''tags''),
       (''description'', Undefined), (''type'', Str ''array''), (''required'', Bool False),
       (''defaultValue'', Undefined), (''minimum'', Undefined), (''maximum'', Undefined),
       (''allowMultiple'', Bool False), (''items'', Obj [(''type'', Str ''a'')])]"
    by simp
  with out 2 show ?thesis by simp
qed

section \<open>Properties of the normalisation\<close>

lemma traverse_all2: "traverse f xs = Some ys \<Longrightarrow> list_all2 (\<lambda>x y. f x = Some y) xs ys"
  by (induction xs arbitrary: ys) (auto split: option.splits)

lemma traverse_total: "(\<And>x. x \<in> set xs \<Longrightarrow> f x \<noteq> None) \<Longrightarrow> \<exists>ys. traverse f xs = Some ys"
  by (induction xs) (auto split: option.splits)

lemma filterM_filter: "filterM f xs = Some ys \<Longrightarrow> ys = filter (\<lambda>x. f x = Some True) xs"
  by (induction xs arbitrary: ys) (auto split: option.splits)

lemma map_snd_concat_arg:
  "map snd (concat_arg shared) = (case shared of Arr ys \<Rightarrow> ys | v \<Rightarrow> [v])"
  by (cases shared) simp_all

lemma keepArg_cases:
  "keepArg arg =
     (if arg = Undefined \<or> arg = Null then None
      else Some (\<not> (truthy (field arg ''http'') \<and>
                     (is_function (field arg ''http'')
                      \<or> field (field arg ''http'') ''source'' = Str ''req''
                      \<or> field (field arg ''http'') ''source'' = Str ''body''))))"
  by (simp add: keepArg_def get_field)

text \<open>
  C8. For a route whose method is a string and whose own accepted arguments can be
  listed (\<open>route.accepts\<close> is an array, or is falsy and counts as the empty list),
  the list the filter receives is the route's own list followed by the shared
  constructor's arguments when \<open>classDef.sharedCtor.accepts\<close> is set (the guard of
  the code: \<open>classDef\<close>, \<open>sharedCtor\<close> and \<open>accepts\<close> all truthy) and the method
  has more than two segments between dots; in every other case it is the route's own
  list, unchanged.
\<close>

theorem sharedCtor_accepts_appended:
  assumes "get route ''method'' = Some (Str m)"
    and "get route ''accepts'' = Some accepts"
    and "or_empty accepts = Some own"
  shows "\<exists>cells. acceptsWithSharedCtor route classDef = Some cells \<and>
           map snd cells =
             (if truthy (sharedCtorAccepts classDef) \<and> length (split CHR ''.'' m) > 2
              then own @ (case sharedCtorAccepts classDef of Arr ys \<Rightarrow> ys | v \<Rightarrow> [v])
              else own)"
  using assms
  by (simp add: acceptsWithSharedCtor_def Let_def map_snd_concat_arg comp_def)

theorem sharedCtor_accepts_appended_witness:
  "acceptsWithSharedCtor
     (Obj [(''method'', Str ''Widget.prototype.find''), (''accepts'', Arr [Obj [(''arg'', Str ''a'')]])])
     (Obj [(''name'', Str ''Widget''), (''sharedCtor'', Obj [(''accepts'', Arr [Obj [(''arg'', Str ''id'')]])])])
   = Some [(Route, Obj [(''arg'', Str ''a'')]), (CtorArg 0, Obj [(''arg'', Str ''id'')])] \<and>
   acceptsWithSharedCtor
     (Obj [(''method'', Str ''Widget.find''), (''accepts'', Arr [Obj [(''arg'', Str ''a'')]])])
     (Obj [(''name'', Str ''Widget''), (''sharedCtor'', Obj [(''accepts'', Arr [Obj [(''arg'', Str ''id'')]])])])
   = Some [(Route, Obj [(''arg'', Str ''a'')])]"
proof -
  let ?deep = "Obj [(''method'', Str ''Widget.prototype.find''), (''accepts'', Arr [Obj [(''arg'', Str ''a'')]])]"
  let ?flat = "Obj [(''method'', Str ''Widget.find''), (''accepts'', Arr [Obj [(''arg'', Str ''a'')]])]"
  let ?classDef = "Obj [(''name'', Str ''Widget''), (''sharedCtor'', Obj [(''accepts'', Arr [Obj [(''arg'', Str ''id'')]])])]"
  have m1: "get ?deep ''method'' = Some (Str ''Widget.prototype.find'')"
    and a1: "get ?deep ''accepts'' = Some (Arr [Obj [(''arg'', Str ''a'')]])"
    and m2: "get ?flat ''method'' = Some (Str ''Widget.find'')"
    and a2: "get ?flat ''accepts'' = Some (Arr [Obj [(''arg'', Str ''a'')]])"
    and own: "or_empty (Arr [Obj [(''arg'', Str ''a'')]]) = Some [Obj [(''arg'', Str ''a'')]]"
    by (simp_all add: lookup_def)
  have s: "sharedCtorAccepts ?classDef = Arr [Obj [(''arg'', Str ''id'')]]"
    by (simp add: sharedCtorAccepts_def guarded_get_def lookup_def)
  from sharedCtor_accepts_appended[OF m1 a1 own, of ?classDef]
  have "\<exists>cells. acceptsWithSharedCtor ?deep ?classDef = Some cells \<and>
          map snd cells = [Obj [(''arg'', Str ''a'')], Obj [(''arg'', Str ''id'')]]"
    by (simp add: s)
  moreover
  from sharedCtor_accepts_appended[OF m2 a2 own, of ?classDef]
  have "\<exists>cells. acceptsWithSharedCtor ?flat ?classDef = Some cells \<and>
          map snd cells = [Obj [(''arg'', Str ''a'')]]"
    by (simp add: s)
  ultimately show ?thesis
    by (simp add: acceptsWithSharedCtor_def s lookup_def Let_def)
qed

lemma keepArg_eq:
  assumes "arg \<noteq> Undefined" and "arg \<noteq> Null"
  shows "keepArg arg =
     Some (\<not> (is_function (field arg ''http'')
               \<or> field (field arg ''http'') ''source'' = Str ''req''
               \<or> field (field arg ''http'') ''source'' = Str ''body''))"
  using assms by (cases "field arg ''http''") (simp_all add: keepArg_cases)

lemma set_prop_Obj: "\<exists>kvs'. set_prop (Obj kvs) k w = Obj kvs'"
  by simp

lemma fixReturnType_fields:
  assumes "fixReturnType route classDef = Some route1"
  shows "k \<noteq> ''returns'' \<Longrightarrow> field route1 k = field route k"
    and "route = Obj kvs \<Longrightarrow> \<exists>kvs'. route1 = Obj kvs'"
  using assms
  by (auto simp: fixReturnType_def Let_def field_set_prop_other split: if_splits bind_splits)

lemma doRouteParameterHacks_SomeD:
  assumes "doRouteParameterHacks route classDef = Some (route', classDef')"
  shows "\<exists>cells kept route1 translated rs returns returns'.
    acceptsWithSharedCtor route classDef = Some cells \<and>
    filterM (\<lambda>c. keepArg (snd c)) cells = Some kept \<and>
    fixReturnType (set_prop route ''accepts'' (Arr (map snd kept))) classDef = Some route1 \<and>
    traverse translateCell kept = Some translated \<and>
    get (set_prop route1 ''accepts'' (Arr (map snd translated))) ''returns'' = Some rs \<and>
    or_empty rs = Some returns \<and>
    traverse translateKeys returns = Some returns' \<and>
    route' = set_prop (set_prop route1 ''accepts'' (Arr (map snd translated))) ''returns'' (Arr returns') \<and>
    classDef' = fold writeBack translated classDef"
  using assms unfolding doRouteParameterHacks_def cloneDeep_def Let_def
  by (simp split: bind_splits)

lemma routeToAPI_parameters:
  assumes "routeToAPI route = Some api" and "field route ''accepts'' = Arr xs"
  shows "\<exists>f op ps. acceptToParameter route = Some f \<and> traverse f xs = Some ps \<and>
           get0 (field api ''operations'') = Some op \<and> field op ''parameters'' = Arr ps"
proof -
  from assms(1) have nn: "route \<noteq> Undefined" "route \<noteq> Null"
    by (auto simp: routeToAPI_def)
  have g: "\<And>k. get route k = Some (field route k)"
    using nn by (simp add: get_Some_field)
  from assms(1) show ?thesis
    unfolding routeToAPI_def g assms(2) Let_def
    by (auto simp: lookup_def split: bind_splits)
qed

lemma acceptsWithSharedCtor_Obj:
  "acceptsWithSharedCtor route classDef = Some cells \<Longrightarrow> \<exists>kvs. route = Obj kvs"
  by (cases route) (simp_all add: acceptsWithSharedCtor_def)

lemma translateCell_snd:
  "translateCell c = Some c' \<Longrightarrow> translateKeys (snd c) = Some (snd c') \<and> fst c' = fst c"
  by (auto simp: translateCell_def)

lemma doRouteParameterHacks_accepts:
  assumes "doRouteParameterHacks route classDef = Some (route', classDef')"
  shows "\<exists>cells translated.
    acceptsWithSharedCtor route classDef = Some cells \<and>
    field route' ''accepts'' = Arr translated \<and>
    list_all2 (\<lambda>a a'. translateKeys a = Some a')
      (filter (\<lambda>a. keepArg a = Some True) (map snd cells)) translated"
proof -
  from doRouteParameterHacks_SomeD[OF assms] obtain cells kept route1 translated returns'
    where cells: "acceptsWithSharedCtor route classDef = Some cells"
      and kept: "filterM (\<lambda>c. keepArg (snd c)) cells = Some kept"
      and route1: "fixReturnType (set_prop route ''accepts'' (Arr (map snd kept))) classDef = Some route1"
      and translated: "traverse translateCell kept = Some translated"
      and route': "route' = set_prop (set_prop route1 ''accepts'' (Arr (map snd translated))) ''returns'' (Arr returns')"
    by blast
  from acceptsWithSharedCtor_Obj[OF cells] obtain kvs where "route = Obj kvs" by blast
  then obtain kvs0 where "set_prop route ''accepts'' (Arr (map snd kept)) = Obj kvs0" by simp
  from fixReturnType_fields(2)[OF route1 this] obtain kvs1 where "route1 = Obj kvs1" by blast
  with route' have acc: "field route' ''accepts'' = Arr (map snd translated)"
    by (simp add: field_set_prop_other field_set_prop_same del: set_prop.simps)
  have k: "map snd kept = filter (\<lambda>a. keepArg a = Some True) (map snd cells)"
    using filterM_filter[OF kept] by (simp add: filter_map comp_def)
  have "list_all2 (\<lambda>c c'. translateCell c = Some c') kept translated"
    using traverse_all2[OF translated] .
  then have "list_all2 (\<lambda>c c'. translateKeys (snd c) = Some (snd c')) kept translated"
    by (rule list_all2_mono) (simp add: translateCell_snd)
  then have "list_all2 (\<lambda>a a'. translateKeys a = Some a') (map snd kept) (map snd translated)"
    by (simp add: list_all2_map1 list_all2_map2)
  with cells acc k show ?thesis by auto
qed

text \<open>
  C7. The parameters of the operation made from a route are, in order, the accepted
  arguments (the route's own, and the shared constructor's where they apply) that the
  filter keeps, each translated and mapped: none is added, none is moved. The filter
  drops an argument whose \<open>http\<close> is a function or whose \<open>http.source\<close> is
  \<open>req\<close> or \<open>body\<close>, and keeps every other one, so every argument without
  \<open>http\<close>.
\<close>

theorem derived_arguments_filtered:
  assumes "doRouteParameterHacks route classDef = Some (route', classDef')"
    and "routeToAPI route' = Some api"
  shows "(\<exists>cells f op ps.
            acceptsWithSharedCtor route classDef = Some cells \<and>
            acceptToParameter route' = Some f \<and>
            get0 (field api ''operations'') = Some op \<and>
            field op ''parameters'' = Arr ps \<and>
            list_all2 (\<lambda>a p. translateKeys a \<bind> f = Some p)
              (filter (\<lambda>a. keepArg a = Some True) (map snd cells)) ps) \<and>
         (\<forall>arg. arg \<noteq> Undefined \<and> arg \<noteq> Null \<longrightarrow>
            keepArg arg =
              Some (\<not> (is_function (field arg ''http'')
                        \<or> field (field arg ''http'') ''source'' = Str ''req''
                        \<or> field (field arg ''http'') ''source'' = Str ''body'')))"
proof -
  from doRouteParameterHacks_accepts[OF assms(1)] obtain cells translated where
    cells: "acceptsWithSharedCtor route classDef = Some cells"
    and acc: "field route' ''accepts'' = Arr translated"
    and tr: "list_all2 (\<lambda>a a'. translateKeys a = Some a')
      (filter (\<lambda>a. keepArg a = Some True) (map snd cells)) translated"
    by blast
  from routeToAPI_parameters[OF assms(2) acc] obtain f op ps where
    f: "acceptToParameter route' = Some f"
    and ps: "traverse f translated = Some ps"
    and op: "get0 (field api ''operations'') = Some op"
    and par: "field op ''parameters'' = Arr ps"
    by blast
  have "list_all2 (\<lambda>a' p. f a' = Some p) translated ps"
    using traverse_all2[OF ps] .
  with tr have "list_all2 ((\<lambda>a a'. translateKeys a = Some a') OO (\<lambda>a' p. f a' = Some p))
      (filter (\<lambda>a. keepArg a = Some True) (map snd cells)) ps"
    by (auto simp: list.rel_compp)
  then have "list_all2 (\<lambda>a p. translateKeys a \<bind> f = Some p)
      (filter (\<lambda>a. keepArg a = Some True) (map snd cells)) ps"
    by (rule list_all2_mono) auto
  with cells f op par keepArg_eq show ?thesis by blast
qed

lemmas run_defs =
  doRouteParameterHacks_def cloneDeep_def acceptsWithSharedCtor_def sharedCtorAccepts_def
  keepArg_def fixReturnType_def translateCell_def KEY_TRANSLATIONS_def translateKey_def
  routeToAPI_def convertPathFragments_def convertVerb_def acceptToParameter_def
  parameterOf_def parameterBase_def deriveTypeFromModel_def attachItems_def
  prepareDataType_def toLowerCase_def toUpperCase_def guarded_get_def lookup_def Let_def

theorem derived_arguments_filtered_witness:
  "doRouteParameterHacks
     (Obj [(''path'', Str ''/w''), (''verb'', Str ''post''), (''method'', Str ''Widget.create''),
           (''accepts'', Arr [Obj [(''arg'', Str ''a'')],
                              Obj [(''arg'', Str ''b''), (''http'', Obj [(''source'', Str ''body'')])],
                              Obj [(''arg'', Str ''c''), (''http'', Fun [] 1 ''function (ctx) {}'')],
                              Obj [(''arg'', Str ''d''), (''http'', Obj [(''source'', Str ''query'')])]])])
     (Obj [(''name'', Str ''Widget'')])
   = Some (Obj [(''path'', Str ''/w''), (''verb'', Str ''post''), (''method'', Str ''Widget.create''),
           (''accepts'', Arr [Obj [(''arg'', Str ''a'')],
                              Obj [(''arg'', Str ''d''), (''http'', Obj [(''source'', Str ''query'')])]]),
           (''returns'', Arr [])],
           Obj [(''name'', Str ''Widget'')]) \<and>
   routeToAPI
     (Obj [(''path'', Str ''/w''), (''verb'', Str ''post''), (''method'', Str ''Widget.create''),
           (''accepts'', Arr [Obj [(''arg'', Str ''a'')],
                              Obj [(''arg'', Str ''d''), (''http'', Obj [(''source'', Str ''query'')])]]),
           (''returns'', Arr [])])
   = Some (Obj [(''path'', Str ''/w''),
        (''operations'', Arr [Obj
           [(''method'', Str ''POST''),
            (''nickname'', Str ''Widget_create''),
            (''type'', Str ''void''),
            (''items'', Str []),
            (''parameters'', Arr
               [Obj [(''paramType'', Str ''form''), (''name'', Str ''a''),
                     (''description'', Undefined), (''type'', Str ''void''),
                     (''required'', Bool False), (''defaultValue'', Undefined),
                     (''minimum'', Undefined), (''maximum'', Undefined),
                     (''allowMultiple'', Bool False)],
                Obj [(''paramType'', Str ''query''), (''name'', Str ''d''),
                     (''description'', Undefined), (''type'', Str ''void''),
                     (''required'', Bool False), (''defaultValue'', Undefined),
                     (''minimum'', Undefined), (''maximum'', Undefined),
                     (''allowMultiple'', Bool False)]]),
            (''responseMessages'', Arr []),
            (''summary'', Undefined),
            (''notes'', Str [])]])])"
proof -
  let ?route = "Obj [(''path'', Str ''/w''), (''verb'', Str ''post''), (''method'', Str ''Widget.create''),
           (''accepts'', Arr [Obj [(''arg'', Str ''a'')],
                              Obj [(''arg'', Str ''b''), (''http'', Obj [(''source'', Str ''body'')])],
                              Obj [(''arg'', Str ''c''), (''http'', Fun [] 1 ''function (ctx) {}'')],
                              Obj [(''arg'', Str ''d''), (''http'', Obj [(''source'', Str ''query'')])]])]"
  let ?route' = "Obj [(''path'', Str ''/w''), (''verb'', Str ''post''), (''method'', Str ''Widget.create''),
           (''accepts'', Arr [Obj [(''arg'', Str ''a'')],
                              Obj [(''arg'', Str ''d''), (''http'', Obj [(''source'', Str ''query'')])]]),
           (''returns'', Arr [])]"
  let ?classDef = "Obj [(''name'', Str ''Widget'')]"
  have hacks: "doRouteParameterHacks ?route ?classDef = Some (?route', ?classDef)"
    by (simp add: run_defs)
  have "\<exists>api. routeToAPI ?route' = Some api"
    by (simp add: run_defs)
  then obtain api where api: "routeToAPI ?route' = Some api" by blast
  from derived_arguments_filtered[OF hacks api] hacks api show ?thesis
    by (simp add: run_defs)
qed

section \<open>Properties of the return type\<close>

lemma translateKeys_other:
  assumes "translateKeys v = Some v'"
    and "k \<notin> fst ` set KEY_TRANSLATIONS \<union> snd ` set KEY_TRANSLATIONS"
  shows "field v' k = field v k"
proof (cases v)
  case (Obj kvs)
  from assms(2) have k: "k \<noteq> ''doc''" "k \<noteq> ''description''" "k \<noteq> ''default''"
    "k \<noteq> ''defaultValue''" "k \<noteq> ''min''" "k \<noteq> ''minimum''" "k \<noteq> ''max''" "k \<noteq> ''maximum''"
    by (auto simp: KEY_TRANSLATIONS_def)
  from assms(1) Obj have "v' = Obj (translateKey (''max'', ''maximum'') (translateKey (''min'', ''minimum'')
       (translateKey (''default'', ''defaultValue'') (translateKey (''doc'', ''description'') kvs))))"
    by (simp add: translateKeys_Obj del: translateKeys.simps)
  with Obj k show ?thesis
    by (simp add: lookup_translateKey)
qed (use assms in auto)

lemma translateKeys_truthy:
  "translateKeys v = Some v' \<Longrightarrow> truthy v' = truthy v"
  by (cases v) auto

lemma fixReturnType_step:
  assumes "get route ''returns'' = Some (Arr (r # rest))"
    and "fixReturnType route classDef = Some route1"
  shows "field route1 ''returns'' =
     Arr ((if field r ''arg'' = Str ''data'' \<and> field r ''type'' = Str ''object''
           then set_prop r ''type'' (field classDef ''name'')
           else if field r ''arg'' = Str ''data'' \<and> field r ''type'' = Str ''array''
           then set_prop (set_prop r ''type'' (Str ''array'')) ''items''
                  (Obj [(''$ref'', field classDef ''name'')])
           else r) # rest)"
proof -
  from assms(1) obtain kvs where route: "route = Obj kvs"
    by (cases route) simp_all
  have rs: "field route ''returns'' = Arr (r # rest)"
    using assms(1) get_SomeD by fastforce
  have tr: "field r ''arg'' = Str ''data'' \<Longrightarrow> truthy r"
    by (cases r) simp_all
  show ?thesis
  proof (cases "field r ''arg'' = Str ''data''")
    case False
    with assms have "route1 = route"
      by (simp add: fixReturnType_def Let_def)
    with False rs show ?thesis by simp
  next
    case True
    note arg = True tr[OF True]
    consider (obj) "field r ''type'' = Str ''object''"
      | (arr) "field r ''type'' = Str ''array''"
      | (other) "field r ''type'' \<noteq> Str ''object''" "field r ''type'' \<noteq> Str ''array''"
      by blast
    then show ?thesis
    proof cases
      case obj
      with assms arg obtain name where name: "get classDef ''name'' = Some name"
        and r1: "route1 = set_prop route ''returns'' (set0 (Arr (r # rest)) (set_prop r ''type'' name))"
        by (auto simp: fixReturnType_def Let_def split: bind_splits)
      from name have "name = field classDef ''name''" using get_SomeD by blast
      with r1 obj arg show ?thesis
        unfolding route by (simp add: field_set_prop_same del: set_prop.simps)
    next
      case arr
      with assms arg obtain name where name: "get classDef ''name'' = Some name"
        and r1: "route1 = set_prop route ''returns'' (set0 (Arr (r # rest))
            (set_prop (set_prop r ''type'' (Str ''array'')) ''items'' (Obj [(''$ref'', name)])))"
        by (auto simp: fixReturnType_def Let_def split: bind_splits)
      from name have "name = field classDef ''name''" using get_SomeD by blast
      with r1 arr arg show ?thesis
        unfolding route by (simp add: field_set_prop_same del: set_prop.simps)
    next
      case other
      with assms arg have "route1 = route"
        by (simp add: fixReturnType_def Let_def)
      with other rs show ?thesis by simp
    qed
  qed
qed

lemma routeToAPI_type:
  assumes "routeToAPI route = Some api" and "field route ''returns'' = Arr (d # ds)"
    and "truthy d"
  shows "\<exists>op. get0 (field api ''operations'') = Some op \<and>
           field op ''type'' = (if truthy (field d ''model'') then field d ''model''
                                else prepareDataType (field d ''type'')) \<and>
           field op ''items'' = field d ''items''"
proof -
  from assms(1) have nn: "route \<noteq> Undefined" "route \<noteq> Null"
    by (auto simp: routeToAPI_def)
  have g: "\<And>k. get route k = Some (field route k)"
    using nn by (simp add: get_Some_field)
  from assms(1,3) show ?thesis
    unfolding routeToAPI_def g assms(2) Let_def
    by (auto simp: lookup_def split: bind_splits)
qed

lemma lookup_update: "lookup (AList.update k v kvs) k' = (if k' = k then v else lookup kvs k')"
  by (simp add: lookup_def AList.update_conv')

lemma traverse_Cons:
  "traverse f (x # xs) = Some ys \<Longrightarrow> \<exists>y ys'. ys = y # ys' \<and> f x = Some y \<and> traverse f xs = Some ys'"
  by (auto split: option.splits)

lemma doRouteParameterHacks_returns:
  assumes "doRouteParameterHacks route classDef = Some (route', classDef')"
    and "get route ''returns'' = Some (Arr (r # rest))"
  shows "\<exists>r1 rest1.
    translateKeys
      (if field r ''arg'' = Str ''data'' \<and> field r ''type'' = Str ''object''
       then set_prop r ''type'' (field classDef ''name'')
       else if field r ''arg'' = Str ''data'' \<and> field r ''type'' = Str ''array''
       then set_prop (set_prop r ''type'' (Str ''array'')) ''items''
              (Obj [(''$ref'', field classDef ''name'')])
       else r) = Some r1 \<and>
    traverse translateKeys rest = Some rest1 \<and>
    field route' ''returns'' = Arr (r1 # rest1)"
proof -
  let ?fixed = "if field r ''arg'' = Str ''data'' \<and> field r ''type'' = Str ''object''
       then set_prop r ''type'' (field classDef ''name'')
       else if field r ''arg'' = Str ''data'' \<and> field r ''type'' = Str ''array''
       then set_prop (set_prop r ''type'' (Str ''array'')) ''items''
              (Obj [(''$ref'', field classDef ''name'')])
       else r"
  from doRouteParameterHacks_SomeD[OF assms(1)] obtain cells kept route1 translated rs returns returns'
    where cells: "acceptsWithSharedCtor route classDef = Some cells"
      and kept: "filterM (\<lambda>c. keepArg (snd c)) cells = Some kept"
      and route1: "fixReturnType (set_prop route ''accepts'' (Arr (map snd kept))) classDef = Some route1"
      and translated: "traverse translateCell kept = Some translated"
      and rs: "get (set_prop route1 ''accepts'' (Arr (map snd translated))) ''returns'' = Some rs"
      and returns: "or_empty rs = Some returns"
      and returns': "traverse translateKeys returns = Some returns'"
      and route': "route' = set_prop (set_prop route1 ''accepts'' (Arr (map snd translated))) ''returns'' (Arr returns')"
      and classDef': "classDef' = fold writeBack translated classDef"
    by (elim exE conjE) (rule that; assumption)
  from assms(2) obtain kvs where route: "route = Obj kvs"
    by (cases route) simp_all
  have "field (set_prop route ''accepts'' (Arr (map snd kept))) ''returns'' = Arr (r # rest)"
    using assms(2) get_SomeD by (fastforce simp: field_set_prop_other)
  then have g: "get (set_prop route ''accepts'' (Arr (map snd kept))) ''returns'' = Some (Arr (r # rest))"
    unfolding route by simp
  from fixReturnType_step[OF g route1]
  have f1: "field route1 ''returns'' = Arr (?fixed # rest)" .
  obtain kvs0 where "set_prop route ''accepts'' (Arr (map snd kept)) = Obj kvs0"
    unfolding route by simp
  from fixReturnType_fields(2)[OF route1 this] obtain kvs1 where kvs1: "route1 = Obj kvs1"
    by blast
  from rs have "rs = field (set_prop route1 ''accepts'' (Arr (map snd translated))) ''returns''"
    using get_SomeD by blast
  with f1 have "rs = Arr (?fixed # rest)"
    by (simp add: field_set_prop_other)
  with returns have "returns = ?fixed # rest" by simp
  with returns' traverse_Cons[of translateKeys ?fixed rest returns']
  obtain r1 rest1 where r1: "translateKeys ?fixed = Some r1"
    and rest1: "traverse translateKeys rest = Some rest1"
    and eq: "returns' = r1 # rest1"
    by blast
  from route' kvs1 eq have "field route' ''returns'' = Arr (r1 # rest1)"
    by (simp add: lookup_update)
  with r1 rest1 show ?thesis by blast
qed

lemma keys_free_of_table:
  "''type'' \<notin> fst ` set KEY_TRANSLATIONS \<union> snd ` set KEY_TRANSLATIONS"
  "''model'' \<notin> fst ` set KEY_TRANSLATIONS \<union> snd ` set KEY_TRANSLATIONS"
  "''items'' \<notin> fst ` set KEY_TRANSLATIONS \<union> snd ` set KEY_TRANSLATIONS"
  by (simp_all add: KEY_TRANSLATIONS_def)

lemma field_arg_data_Obj: "field r ''arg'' = Str ''data'' \<Longrightarrow> \<exists>kvs. r = Obj kvs"
  by (cases r) simp_all

lemma operation_type_after_fixup:
  assumes "get route ''returns'' = Some (Arr (r # rest))"
    and "field r ''arg'' = Str ''data''"
    and "doRouteParameterHacks route classDef = Some (route', classDef')"
    and "routeToAPI route' = Some api"
  shows "\<exists>op. get0 (field api ''operations'') = Some op \<and>
      (field r ''type'' = Str ''object'' \<longrightarrow>
         field op ''type'' = (if truthy (field r ''model'') then field r ''model''
                              else prepareDataType (field classDef ''name''))) \<and>
      (field r ''type'' = Str ''array'' \<longrightarrow>
         field op ''type'' = (if truthy (field r ''model'') then field r ''model''
                              else Str ''array'') \<and>
         field op ''items'' = Obj [(''$ref'', field classDef ''name'')])"
proof -
  from field_arg_data_Obj[OF assms(2)] obtain kvs where r: "r = Obj kvs" by blast
  have fx: "(if field r ''arg'' = Str ''data'' \<and> field r ''type'' = Str ''object''
       then set_prop r ''type'' (field classDef ''name'')
       else if field r ''arg'' = Str ''data'' \<and> field r ''type'' = Str ''array''
       then set_prop (set_prop r ''type'' (Str ''array'')) ''items''
              (Obj [(''$ref'', field classDef ''name'')])
       else r) =
      (if field r ''type'' = Str ''object''
       then set_prop r ''type'' (field classDef ''name'')
       else if field r ''type'' = Str ''array''
       then set_prop (set_prop r ''type'' (Str ''array'')) ''items''
              (Obj [(''$ref'', field classDef ''name'')])
       else r)"
    using assms(2) by simp
  from doRouteParameterHacks_returns[OF assms(3,1)] obtain r1 rest1 where
    r1: "translateKeys
      (if field r ''type'' = Str ''object''
       then set_prop r ''type'' (field classDef ''name'')
       else if field r ''type'' = Str ''array''
       then set_prop (set_prop r ''type'' (Str ''array'')) ''items''
              (Obj [(''$ref'', field classDef ''name'')])
       else r) = Some r1"
    and ret: "field route' ''returns'' = Arr (r1 # rest1)"
    unfolding fx by (elim exE conjE) (rule that; assumption)
  have "truthy r1"
    using translateKeys_truthy[OF r1] unfolding r by (simp split: if_splits)
  from routeToAPI_type[OF assms(4) ret this] obtain op where
    op: "get0 (field api ''operations'') = Some op"
    and ty: "field op ''type'' = (if truthy (field r1 ''model'') then field r1 ''model''
                                else prepareDataType (field r1 ''type''))"
    and it: "field op ''items'' = field r1 ''items''"
    by blast
  have obj: "field op ''type'' = (if truthy (field r ''model'') then field r ''model''
                              else prepareDataType (field classDef ''name''))"
    if "field r ''type'' = Str ''object''"
  proof -
    from r1 that have t: "translateKeys (set_prop r ''type'' (field classDef ''name'')) = Some r1"
      by simp
    have "field r1 ''model'' = field r ''model''"
      using translateKeys_other[OF t keys_free_of_table(2)] by (simp add: field_set_prop_other)
    moreover have "field r1 ''type'' = field classDef ''name''"
      using translateKeys_other[OF t keys_free_of_table(1)] unfolding r
      by (simp add: field_set_prop_same del: set_prop.simps)
    ultimately show ?thesis using ty by simp
  qed
  have arr: "field op ''type'' = (if truthy (field r ''model'') then field r ''model''
                              else Str ''array'') \<and>
         field op ''items'' = Obj [(''$ref'', field classDef ''name'')]"
    if "field r ''type'' = Str ''array''"
  proof -
    let ?fixed = "set_prop (set_prop r ''type'' (Str ''array'')) ''items''
              (Obj [(''$ref'', field classDef ''name'')])"
    from r1 that have t: "translateKeys ?fixed = Some r1"
      by simp
    obtain kvs2 where k2: "set_prop r ''type'' (Str ''array'') = Obj kvs2"
      unfolding r by simp
    have "field r1 ''model'' = field r ''model''"
      using translateKeys_other[OF t keys_free_of_table(2)] by (simp add: field_set_prop_other)
    moreover have "field r1 ''type'' = Str ''array''"
      using translateKeys_other[OF t keys_free_of_table(1)] unfolding r
      by (simp add: field_set_prop_other field_set_prop_same del: set_prop.simps)
    moreover have "field r1 ''items'' = Obj [(''$ref'', field classDef ''name'')]"
      using translateKeys_other[OF t keys_free_of_table(3)] unfolding k2
      by (simp add: field_set_prop_same del: set_prop.simps)
    ultimately show ?thesis using ty it by (simp add: prepareDataType_def)
  qed
  from op obj arr show ?thesis by blast
qed

text \<open>
  C5, as the code has it. Let the first entry of the route's \<open>returns\<close> have
  \<open>arg === 'data'\<close>. If its type is \<open>object\<close>, the fix sets the entry's type to
  \<open>classDef.name\<close>, and the operation's type is the entry's \<open>model\<close> when it has
  a truthy one and otherwise \<open>classDef.name\<close> passed through the data-type mapper.
  If its type is \<open>array\<close>, the fix sets the entry's \<open>items\<close> to
  \<open>{'$ref': classDef.name}\<close>, which is the operation's \<open>items\<close>, and the
  operation's type is the entry's \<open>model\<close> when it has a truthy one and otherwise
  \<open>array\<close>. The fix leaves alone every entry after the first, and a first entry
  with another \<open>arg\<close> or another type. The class may be an object with a
  \<open>name\<close> or a constructor function, whose \<open>name\<close> is the function's.
\<close>

theorem return_type_fixup:
  assumes "get route ''returns'' = Some (Arr (r # rest))"
  shows "(\<forall>route1. fixReturnType route classDef = Some route1 \<longrightarrow>
            field route1 ''returns'' =
              Arr ((if field r ''arg'' = Str ''data'' \<and> field r ''type'' = Str ''object''
                    then set_prop r ''type'' (field classDef ''name'')
                    else if field r ''arg'' = Str ''data'' \<and> field r ''type'' = Str ''array''
                    then set_prop (set_prop r ''type'' (Str ''array'')) ''items''
                           (Obj [(''$ref'', field classDef ''name'')])
                    else r) # rest)) \<and>
         (\<forall>route' classDef' api.
            field r ''arg'' = Str ''data'' \<and>
            doRouteParameterHacks route classDef = Some (route', classDef') \<and>
            routeToAPI route' = Some api \<longrightarrow>
            (\<exists>op. get0 (field api ''operations'') = Some op \<and>
               (field r ''type'' = Str ''object'' \<longrightarrow>
                  field op ''type'' = (if truthy (field r ''model'') then field r ''model''
                                       else prepareDataType (field classDef ''name''))) \<and>
               (field r ''type'' = Str ''array'' \<longrightarrow>
                  field op ''type'' = (if truthy (field r ''model'') then field r ''model''
                                       else Str ''array'') \<and>
                  field op ''items'' = Obj [(''$ref'', field classDef ''name'')])))"
proof (intro conjI allI impI)
  fix route1
  assume "fixReturnType route classDef = Some route1"
  from fixReturnType_step[OF assms this]
  show "field route1 ''returns'' =
              Arr ((if field r ''arg'' = Str ''data'' \<and> field r ''type'' = Str ''object''
                    then set_prop r ''type'' (field classDef ''name'')
                    else if field r ''arg'' = Str ''data'' \<and> field r ''type'' = Str ''array''
                    then set_prop (set_prop r ''type'' (Str ''array'')) ''items''
                           (Obj [(''$ref'', field classDef ''name'')])
                    else r) # rest)" .
next
  fix route' classDef' api
  assume a: "field r ''arg'' = Str ''data'' \<and>
            doRouteParameterHacks route classDef = Some (route', classDef') \<and>
            routeToAPI route' = Some api"
  then have 1: "field r ''arg'' = Str ''data''"
    and 2: "doRouteParameterHacks route classDef = Some (route', classDef')"
    and 3: "routeToAPI route' = Some api"
    by simp_all
  from operation_type_after_fixup[OF assms 1 2 3]
  show "\<exists>op. get0 (field api ''operations'') = Some op \<and>
               (field r ''type'' = Str ''object'' \<longrightarrow>
                  field op ''type'' = (if truthy (field r ''model'') then field r ''model''
                                       else prepareDataType (field classDef ''name''))) \<and>
               (field r ''type'' = Str ''array'' \<longrightarrow>
                  field op ''type'' = (if truthy (field r ''model'') then field r ''model''
                                       else Str ''array'') \<and>
                  field op ''items'' = Obj [(''$ref'', field classDef ''name'')])" .
qed

theorem return_type_fixup_witness:
  "doRouteParameterHacks
     (Obj [(''path'', Str ''/widgets''), (''verb'', Str ''get''), (''method'', Str ''Widget.find''),
           (''returns'', Arr [Obj [(''arg'', Str ''data''), (''type'', Str ''array'')]])])
     (Obj [(''name'', Str ''Widget'')])
   = Some (Obj [(''path'', Str ''/widgets''), (''verb'', Str ''get''), (''method'', Str ''Widget.find''),
           (''returns'', Arr [Obj [(''arg'', Str ''data''), (''type'', Str ''array''),
                                   (''items'', Obj [(''$ref'', Str ''Widget'')])]]),
           (''accepts'', Arr [])],
           Obj [(''name'', Str ''Widget'')]) \<and>
   routeToAPI
     (Obj [(''path'', Str ''/widgets''), (''verb'', Str ''get''), (''method'', Str ''Widget.find''),
           (''returns'', Arr [Obj [(''arg'', Str ''data''), (''type'', Str ''array''),
                                   (''items'', Obj [(''$ref'', Str ''Widget'')])]]),
           (''accepts'', Arr [])])
   = Some (Obj [(''path'', Str ''/widgets''),
        (''operations'', Arr [Obj
           [(''method'', Str ''GET''),
            (''nickname'', Str ''Widget_find''),
            (''type'', Str ''array''),
            (''items'', Obj [(''$ref'', Str ''Widget'')]),
            (''parameters'', Arr []),
            (''responseMessages'', Arr []),
            (''summary'', Undefined),
            (''notes'', Str [])]])]) \<and>
   doRouteParameterHacks
     (Obj [(''path'', Str ''/widgets/:id''), (''verb'', Str ''get''),
           (''method'', Str ''Widget.findById''),
           (''returns'', Arr [Obj [(''arg'', Str ''data''), (''type'', Str ''object'')]])])
     (Fun ''Widget'' 0 ''function Widget() {}'')
   = Some (Obj [(''path'', Str ''/widgets/:id''), (''verb'', Str ''get''),
           (''method'', Str ''Widget.findById''),
           (''returns'', Arr [Obj [(''arg'', Str ''data''), (''type'', Str ''Widget'')]]),
           (''accepts'', Arr [])],
           Fun ''Widget'' 0 ''function Widget() {}'') \<and>
   routeToAPI
     (Obj [(''path'', Str ''/widgets/:id''), (''verb'', Str ''get''),
           (''method'', Str ''Widget.findById''),
           (''returns'', Arr [Obj [(''arg'', Str ''data''), (''type'', Str ''Widget'')]]),
           (''accepts'', Arr [])])
   = Some (Obj [(''path'', Str ''/widgets/{id}''),
        (''operations'', Arr [Obj
           [(''method'', Str ''GET''),
            (''nickname'', Str ''Widget_findById''),
            (''type'', Str ''Widget''),
            (''items'', Undefined),
            (''parameters'', Arr []),
            (''responseMessages'', Arr []),
            (''summary'', Undefined),
            (''notes'', Str [])]])])"
proof -
  let ?r = "Obj [(''arg'', Str ''data''), (''type'', Str ''array'')]"
  let ?route = "Obj [(''path'', Str ''/widgets''), (''verb'', Str ''get''), (''method'', Str ''Widget.find''),
           (''returns'', Arr [?r])]"
  let ?route' = "Obj [(''path'', Str ''/widgets''), (''verb'', Str ''get''), (''method'', Str ''Widget.find''),
           (''returns'', Arr [Obj [(''arg'', Str ''data''), (''type'', Str ''array''),
                                   (''items'', Obj [(''$ref'', Str ''Widget'')])]]),
           (''accepts'', Arr [])]"
  let ?classDef = "Obj [(''name'', Str ''Widget'')]"
  let ?s = "Obj [(''arg'', Str ''data''), (''type'', Str ''object'')]"
  let ?byId = "Obj [(''path'', Str ''/widgets/:id''), (''verb'', Str ''get''),
           (''method'', Str ''Widget.findById''), (''returns'', Arr [?s])]"
  let ?byId' = "Obj [(''path'', Str ''/widgets/:id''), (''verb'', Str ''get''),
           (''method'', Str ''Widget.findById''),
           (''returns'', Arr [Obj [(''arg'', Str ''data''), (''type'', Str ''Widget'')]]),
           (''accepts'', Arr [])]"
  let ?ctor = "Fun ''Widget'' 0 ''function Widget() {}''"
  have ret: "get ?route ''returns'' = Some (Arr (?r # []))"
    by (simp add: lookup_def)
  have hacks: "doRouteParameterHacks ?route ?classDef = Some (?route', ?classDef)"
    by (simp add: run_defs)
  have "\<exists>api. routeToAPI ?route' = Some api"
    by (simp add: run_defs)
  then obtain api where api: "routeToAPI ?route' = Some api" by blast
  have arg: "field ?r ''arg'' = Str ''data''" by (simp add: lookup_def)
  from return_type_fixup[OF ret, of ?classDef] arg hacks api
  have 1: "\<exists>op. get0 (field api ''operations'') = Some op \<and>
          field op ''type'' = Str ''array'' \<and>
          field op ''items'' = Obj [(''$ref'', Str ''Widget'')]"
    by (simp add: lookup_def)
  have ret': "get ?byId ''returns'' = Some (Arr (?s # []))"
    by (simp add: lookup_def)
  have hacks': "doRouteParameterHacks ?byId ?ctor = Some (?byId', ?ctor)"
    by (simp add: run_defs)
  have "\<exists>api. routeToAPI ?byId' = Some api"
    by (simp add: run_defs)
  then obtain api' where api': "routeToAPI ?byId' = Some api'" by blast
  have arg': "field ?s ''arg'' = Str ''data''" by (simp add: lookup_def)
  from return_type_fixup[OF ret', of ?ctor] arg' hacks' api'
  have 2: "\<exists>op. get0 (field api' ''operations'') = Some op \<and>
          field op ''type'' = Str ''Widget''"
    by (simp add: lookup_def prepareDataType_def)
  from 1 2 hacks api hacks' api' show ?thesis
    by (simp add: run_defs)
qed

text \<open>
  C5 as the specification words it (the operation's type is the class's name whenever
  the entry's type is \<open>object\<close>) fails when the first entry names a model: the
  operation's type is then the model.
\<close>

theorem return_type_fixup_counterexample:
  "doRouteParameterHacks
     (Obj [(''path'', Str ''/widgets/:id''), (''verb'', Str ''get''), (''method'', Str ''Widget.findById''),
           (''returns'', Arr [Obj [(''arg'', Str ''data''), (''type'', Str ''object''),
                                   (''model'', Str ''Gadget'')]])])
     (Obj [(''name'', Str ''Widget'')])
   = Some (Obj [(''path'', Str ''/widgets/:id''), (''verb'', Str ''get''), (''method'', Str ''Widget.findById''),
           (''returns'', Arr [Obj [(''arg'', Str ''data''), (''type'', Str ''Widget''),
                                   (''model'', Str ''Gadget'')]]),
           (''accepts'', Arr [])],
           Obj [(''name'', Str ''Widget'')]) \<and>
   routeToAPI
     (Obj [(''path'', Str ''/widgets/:id''), (''verb'', Str ''get''), (''method'', Str ''Widget.findById''),
           (''returns'', Arr [Obj [(''arg'', Str ''data''), (''type'', Str ''Widget''),
                                   (''model'', Str ''Gadget'')]]),
           (''accepts'', Arr [])])
   = Some (Obj [(''path'', Str ''/widgets/{id}''),
        (''operations'', Arr [Obj
           [(''method'', Str ''GET''),
            (''nickname'', Str ''Widget_findById''),
            (''type'', Str ''Gadget''),
            (''items'', Undefined),
            (''parameters'', Arr []),
            (''responseMessages'', Arr []),
            (''summary'', Undefined),
            (''notes'', Str [])]])]) \<and>
   Str ''Gadget'' \<noteq> field (Obj [(''name'', Str ''Widget'')]) ''name''"
  by (simp add: run_defs)

section \<open>Properties of the merge\<close>

lemma routeToAPI_shape:
  assumes "routeToAPI route = Some api"
  shows "\<exists>p op. api = Obj [(''path'', Str p), (''operations'', Arr [op])]"
  using assms unfolding routeToAPI_def convertPathFragments_def Let_def
  by (auto split: bind_splits)

lemma filter_Nil_all: "filter P xs = [] \<Longrightarrow> \<forall>x \<in> set xs. \<not> P x"
  by (simp add: filter_empty_conv)

lemma update_first_index:
  assumes "filter P xs = m # ms"
  shows "\<exists>i. i < length xs \<and> xs ! i = m \<and> P m \<and> (\<forall>j < i. \<not> P (xs ! j)) \<and>
             update_first P f xs = xs[i := f m]"
  using assms
proof (induction xs)
  case Nil
  then show ?case by simp
next
  case (Cons x xs)
  show ?case
  proof (cases "P x")
    case True
    with Cons.prems have "x = m" by simp
    with True have "0 < length (x # xs) \<and> (x # xs) ! 0 = m \<and> P m \<and>
        (\<forall>j < 0. \<not> P ((x # xs) ! j)) \<and> update_first P f (x # xs) = (x # xs)[0 := f m]"
      by simp
    then show ?thesis by blast
  next
    case False
    with Cons.prems have "filter P xs = m # ms" by simp
    from Cons.IH[OF this] obtain i where i: "i < length xs" "xs ! i = m" "P m"
      "\<forall>j < i. \<not> P (xs ! j)" "update_first P f xs = xs[i := f m]"
      by blast
    have "\<forall>j < Suc i. \<not> P ((x # xs) ! j)"
    proof (intro allI impI)
      fix j assume "j < Suc i"
      then show "\<not> P ((x # xs) ! j)"
        using False i(4) by (cases j) simp_all
    qed
    with i False have "Suc i < length (x # xs) \<and> (x # xs) ! Suc i = m \<and> P m \<and>
        (\<forall>j < Suc i. \<not> P ((x # xs) ! j)) \<and>
        update_first P f (x # xs) = (x # xs)[Suc i := f m]"
      by simp
    then show ?thesis by blast
  qed
qed

text \<open>What one call of \<open>addRouteToDoc\<close> that returns does to the document.\<close>

lemma addRouteToDoc_SomeD:
  assumes "addRouteToDoc route doc = Some doc'"
  shows "\<exists>p op existing apis'.
     routeToAPI route = Some (Obj [(''path'', Str p), (''operations'', Arr [op])]) \<and>
     get doc ''apis'' = Some (Arr existing) \<and>
     doc' = set_prop doc ''apis'' (Arr apis') \<and>
     (if Str p \<in> set (map (\<lambda>a. field a ''path'') existing)
      then \<exists>i ops. i < length existing \<and> field (existing ! i) ''path'' = Str p \<and>
             (\<forall>j < i. field (existing ! j) ''path'' \<noteq> Str p) \<and>
             field (existing ! i) ''operations'' = Arr ops \<and>
             apis' = existing[i := set_prop (existing ! i) ''operations'' (Arr (ops @ [op]))]
      else apis' = existing @ [Obj [(''path'', Str p), (''operations'', Arr [op])]])"
proof -
  from assms obtain api where api: "routeToAPI route = Some api"
    by (auto simp: addRouteToDoc_def split: bind_splits)
  from routeToAPI_shape[OF api] obtain p op where
    shape: "api = Obj [(''path'', Str p), (''operations'', Arr [op])]" by blast
  have ap: "field api ''path'' = Str p" and ao: "get0 (field api ''operations'') = Some op"
    unfolding shape by (simp_all add: lookup_def)
  from assms api ao obtain apis where apis: "get doc ''apis'' = Some apis"
    by (auto simp: addRouteToDoc_def split: bind_splits)
  with assms api ao obtain existing where ex: "apis = Arr existing"
    by (cases apis) (auto simp: addRouteToDoc_def)
  let ?same = "\<lambda>existingAPI. field existingAPI ''path'' = Str p"
  from assms have "(case filter (\<lambda>existingAPI. field existingAPI ''path'' = field api ''path'') existing of
             [] \<Rightarrow> Some (set_prop doc ''apis'' (Arr (existing @ [api])))
           | m # ms \<Rightarrow>
               (case field m ''operations'' of
                  Arr ops \<Rightarrow>
                    Some (set_prop doc ''apis'' (Arr (update_first
                      (\<lambda>existingAPI. field existingAPI ''path'' = field api ''path'')
                      (\<lambda>a. set_prop a ''operations'' (Arr (ops @ [op]))) existing)))
                | _ \<Rightarrow> None)) = Some doc'"
    using api ao apis
    by (simp add: addRouteToDoc_def ex Let_def split: bind_splits)
  then have run: "(case filter ?same existing of
             [] \<Rightarrow> Some (set_prop doc ''apis'' (Arr (existing @ [api])))
           | m # ms \<Rightarrow>
               (case field m ''operations'' of
                  Arr ops \<Rightarrow>
                    Some (set_prop doc ''apis'' (Arr (update_first ?same
                      (\<lambda>a. set_prop a ''operations'' (Arr (ops @ [op]))) existing)))
                | _ \<Rightarrow> None)) = Some doc'"
    unfolding ap .
  show ?thesis
  proof (cases "filter ?same existing")
    case Nil
    from filter_Nil_all[OF Nil] have "Str p \<notin> set (map (\<lambda>a. field a ''path'') existing)"
      by auto
    moreover from run Nil have "doc' = set_prop doc ''apis'' (Arr (existing @ [api]))"
      by simp
    ultimately have "routeToAPI route = Some (Obj [(''path'', Str p), (''operations'', Arr [op])]) \<and>
     get doc ''apis'' = Some (Arr existing) \<and>
     doc' = set_prop doc ''apis'' (Arr (existing @ [api])) \<and>
     (if Str p \<in> set (map (\<lambda>a. field a ''path'') existing)
      then \<exists>i ops. i < length existing \<and> field (existing ! i) ''path'' = Str p \<and>
             (\<forall>j < i. field (existing ! j) ''path'' \<noteq> Str p) \<and>
             field (existing ! i) ''operations'' = Arr ops \<and>
             existing @ [api] = existing[i := set_prop (existing ! i) ''operations'' (Arr (ops @ [op]))]
      else existing @ [api] = existing @ [Obj [(''path'', Str p), (''operations'', Arr [op])]])"
      using api apis ex shape by (simp only: if_False simp_thms)
    then show ?thesis by blast
  next
    case (Cons m ms)
    with run obtain ops where ops: "field m ''operations'' = Arr ops"
      by (cases "field m ''operations''") simp_all
    with run Cons have d: "doc' = set_prop doc ''apis'' (Arr (update_first ?same
                      (\<lambda>a. set_prop a ''operations'' (Arr (ops @ [op]))) existing))"
      by simp
    from update_first_index[OF Cons, of "\<lambda>a. set_prop a ''operations'' (Arr (ops @ [op]))"]
    obtain i where i: "i < length existing" "existing ! i = m" "?same m"
      "\<forall>j < i. \<not> ?same (existing ! j)"
      "update_first ?same (\<lambda>a. set_prop a ''operations'' (Arr (ops @ [op]))) existing
         = existing[i := set_prop m ''operations'' (Arr (ops @ [op]))]"
      by blast
    have mem: "Str p \<in> set (map (\<lambda>a. field a ''path'') existing)"
      using i(1,2,3) by (metis (no_types, lifting) image_eqI nth_mem set_map)
    let ?apis' = "existing[i := set_prop m ''operations'' (Arr (ops @ [op]))]"
    have "i < length existing \<and> field (existing ! i) ''path'' = Str p \<and>
             (\<forall>j < i. field (existing ! j) ''path'' \<noteq> Str p) \<and>
             field (existing ! i) ''operations'' = Arr ops \<and>
             ?apis' = existing[i := set_prop (existing ! i) ''operations'' (Arr (ops @ [op]))]"
      using i(1-4) ops by simp
    then have body: "\<exists>i ops. i < length existing \<and> field (existing ! i) ''path'' = Str p \<and>
             (\<forall>j < i. field (existing ! j) ''path'' \<noteq> Str p) \<and>
             field (existing ! i) ''operations'' = Arr ops \<and>
             ?apis' = existing[i := set_prop (existing ! i) ''operations'' (Arr (ops @ [op]))]"
      by blast
    have "routeToAPI route = Some (Obj [(''path'', Str p), (''operations'', Arr [op])]) \<and>
     get doc ''apis'' = Some (Arr existing) \<and>
     doc' = set_prop doc ''apis'' (Arr ?apis') \<and>
     (if Str p \<in> set (map (\<lambda>a. field a ''path'') existing)
      then \<exists>i ops. i < length existing \<and> field (existing ! i) ''path'' = Str p \<and>
             (\<forall>j < i. field (existing ! j) ''path'' \<noteq> Str p) \<and>
             field (existing ! i) ''operations'' = Arr ops \<and>
             ?apis' = existing[i := set_prop (existing ! i) ''operations'' (Arr (ops @ [op]))]
      else ?apis' = existing @ [Obj [(''path'', Str p), (''operations'', Arr [op])]])"
      using api shape apis ex d i(5) mem body by (simp only: if_True simp_thms)
    then show ?thesis by blast
  qed
qed

lemma get_apis_Obj:
  assumes "get doc ''apis'' = Some (Arr existing)"
  shows "\<exists>kvs. doc = Obj kvs" and "field doc ''apis'' = Arr existing"
  using assms by (cases doc; simp)+

lemma apiPaths_set_apis:
  "apiPaths (set_prop (Obj kvs) ''apis'' (Arr apis')) = map (\<lambda>a. field a ''path'') apis'"
  by (simp add: apiPaths_def lookup_update)

lemma addRouteToDoc_distinct:
  assumes "distinct (apiPaths doc)" and "addRouteToDoc route doc = Some doc'"
  shows "distinct (apiPaths doc')"
proof -
  from addRouteToDoc_SomeD[OF assms(2)] obtain p op existing apis' where
    apis: "get doc ''apis'' = Some (Arr existing)"
    and doc': "doc' = set_prop doc ''apis'' (Arr apis')"
    and cases: "if Str p \<in> set (map (\<lambda>a. field a ''path'') existing)
      then \<exists>i ops. i < length existing \<and> field (existing ! i) ''path'' = Str p \<and>
             (\<forall>j < i. field (existing ! j) ''path'' \<noteq> Str p) \<and>
             field (existing ! i) ''operations'' = Arr ops \<and>
             apis' = existing[i := set_prop (existing ! i) ''operations'' (Arr (ops @ [op]))]
      else apis' = existing @ [Obj [(''path'', Str p), (''operations'', Arr [op])]]"
    by (elim exE conjE) (rule that; assumption)
  from get_apis_Obj[OF apis] obtain kvs where doc: "doc = Obj kvs"
    and f: "field doc ''apis'' = Arr existing" by blast
  from assms(1) f have d: "distinct (map (\<lambda>a. field a ''path'') existing)"
    by (simp add: apiPaths_def)
  have p': "apiPaths doc' = map (\<lambda>a. field a ''path'') apis'"
    unfolding doc' doc by (rule apiPaths_set_apis)
  show ?thesis
  proof (cases "Str p \<in> set (map (\<lambda>a. field a ''path'') existing)")
    case True
    with cases obtain i ops where i: "i < length existing"
      and a': "apis' = existing[i := set_prop (existing ! i) ''operations'' (Arr (ops @ [op]))]"
      by auto
    have "map (\<lambda>a. field a ''path'') apis' = map (\<lambda>a. field a ''path'') existing"
      unfolding a' by (simp add: map_update field_set_prop_other list_update_same_conv i)
    with d p' show ?thesis by simp
  next
    case False
    with cases have "apis' = existing @ [Obj [(''path'', Str p), (''operations'', Arr [op])]]"
      by simp
    then have "map (\<lambda>a. field a ''path'') apis' = map (\<lambda>a. field a ''path'') existing @ [Str p]"
      by (simp add: lookup_def)
    with d False p' show ?thesis by simp
  qed
qed

lemma addRouteToAPIDeclaration_SomeD:
  assumes "addRouteToAPIDeclaration route classDef doc = Some (classDef', doc')"
  shows "\<exists>route'. doRouteParameterHacks route classDef = Some (route', classDef') \<and>
           addRouteToDoc route' doc = Some doc'"
  using assms by (auto simp: addRouteToAPIDeclaration_def split: bind_splits)

lemma addRoutes_distinct:
  assumes "addRoutes calls doc0 = Some doc" and "distinct (apiPaths doc0)"
  shows "distinct (apiPaths doc)"
  using assms
proof (induction calls arbitrary: doc0)
  case Nil
  then show ?case by simp
next
  case (Cons call calls)
  obtain route classDef where call: "call = (route, classDef)" by (cases call)
  with Cons.prems(1) obtain classDef' doc' where
    first: "addRouteToAPIDeclaration route classDef doc0 = Some (classDef', doc')"
    and rest: "addRoutes calls doc' = Some doc"
    by (auto split: option.splits)
  from addRouteToAPIDeclaration_SomeD[OF first] obtain route' where
    "addRouteToDoc route' doc0 = Some doc'" by blast
  with Cons.prems(2) have "distinct (apiPaths doc')"
    by (rule addRouteToDoc_distinct)
  with rest show ?case by (rule Cons.IH)
qed

text \<open>
  C3. Start from a document whose APIs have pairwise different paths. After any sequence
  of calls, with any routes and classes, the paths are still pairwise different. A further call whose
  route converts to a path some API already has leaves the list of APIs as it is but
  for that API, whose operations get the new operation at the end; a call whose path is
  new appends the whole API record to the list.
\<close>

theorem paths_stay_distinct:
  assumes "distinct (apiPaths doc0)" and "addRoutes calls doc0 = Some doc"
  shows "distinct (apiPaths doc) \<and>
     (\<forall>route classDef classDef' doc'.
        addRouteToAPIDeclaration route classDef doc = Some (classDef', doc') \<longrightarrow>
        (\<exists>route' p op existing apis'.
           doRouteParameterHacks route classDef = Some (route', classDef') \<and>
           routeToAPI route' = Some (Obj [(''path'', Str p), (''operations'', Arr [op])]) \<and>
           field doc ''apis'' = Arr existing \<and>
           field doc' ''apis'' = Arr apis' \<and>
           (if Str p \<in> set (apiPaths doc)
            then \<exists>i ops. i < length existing \<and> field (existing ! i) ''path'' = Str p \<and>
                   field (existing ! i) ''operations'' = Arr ops \<and>
                   apis' = existing[i := set_prop (existing ! i) ''operations'' (Arr (ops @ [op]))]
            else apis' = existing @ [Obj [(''path'', Str p), (''operations'', Arr [op])]])))"
proof (intro conjI allI impI)
  show "distinct (apiPaths doc)"
    using assms(2,1) by (rule addRoutes_distinct)
next
  fix route classDef classDef' doc'
  assume "addRouteToAPIDeclaration route classDef doc = Some (classDef', doc')"
  from addRouteToAPIDeclaration_SomeD[OF this] obtain route' where
    hacks: "doRouteParameterHacks route classDef = Some (route', classDef')"
    and add: "addRouteToDoc route' doc = Some doc'"
    by blast
  from addRouteToDoc_SomeD[OF add] obtain p op existing apis' where
    api: "routeToAPI route' = Some (Obj [(''path'', Str p), (''operations'', Arr [op])])"
    and apis: "get doc ''apis'' = Some (Arr existing)"
    and doc': "doc' = set_prop doc ''apis'' (Arr apis')"
    and cases: "if Str p \<in> set (map (\<lambda>a. field a ''path'') existing)
      then \<exists>i ops. i < length existing \<and> field (existing ! i) ''path'' = Str p \<and>
             (\<forall>j < i. field (existing ! j) ''path'' \<noteq> Str p) \<and>
             field (existing ! i) ''operations'' = Arr ops \<and>
             apis' = existing[i := set_prop (existing ! i) ''operations'' (Arr (ops @ [op]))]
      else apis' = existing @ [Obj [(''path'', Str p), (''operations'', Arr [op])]]"
    by (elim exE conjE) (rule that; assumption)
  from get_apis_Obj[OF apis] obtain kvs where doc: "doc = Obj kvs"
    and f: "field doc ''apis'' = Arr existing" by blast
  have f': "field doc' ''apis'' = Arr apis'"
    unfolding doc' doc by (simp add: lookup_update)
  have paths: "apiPaths doc = map (\<lambda>a. field a ''path'') existing"
    using f by (simp add: apiPaths_def)
  have "if Str p \<in> set (apiPaths doc)
            then \<exists>i ops. i < length existing \<and> field (existing ! i) ''path'' = Str p \<and>
                   field (existing ! i) ''operations'' = Arr ops \<and>
                   apis' = existing[i := set_prop (existing ! i) ''operations'' (Arr (ops @ [op]))]
            else apis' = existing @ [Obj [(''path'', Str p), (''operations'', Arr [op])]]"
  proof (cases "Str p \<in> set (map (\<lambda>a. field a ''path'') existing)")
    case True
    with cases obtain i ops where "i < length existing" "field (existing ! i) ''path'' = Str p"
      "field (existing ! i) ''operations'' = Arr ops"
      "apis' = existing[i := set_prop (existing ! i) ''operations'' (Arr (ops @ [op]))]"
      by auto
    then have "\<exists>i ops. i < length existing \<and> field (existing ! i) ''path'' = Str p \<and>
                   field (existing ! i) ''operations'' = Arr ops \<and>
                   apis' = existing[i := set_prop (existing ! i) ''operations'' (Arr (ops @ [op]))]"
      by blast
    with True show ?thesis unfolding paths by (simp only: if_True)
  next
    case False
    with cases show ?thesis unfolding paths by (simp only: if_False)
  qed
  with hacks api f f'
  show "\<exists>route' p op existing apis'.
           doRouteParameterHacks route classDef = Some (route', classDef') \<and>
           routeToAPI route' = Some (Obj [(''path'', Str p), (''operations'', Arr [op])]) \<and>
           field doc ''apis'' = Arr existing \<and>
           field doc' ''apis'' = Arr apis' \<and>
           (if Str p \<in> set (apiPaths doc)
            then \<exists>i ops. i < length existing \<and> field (existing ! i) ''path'' = Str p \<and>
                   field (existing ! i) ''operations'' = Arr ops \<and>
                   apis' = existing[i := set_prop (existing ! i) ''operations'' (Arr (ops @ [op]))]
            else apis' = existing @ [Obj [(''path'', Str p), (''operations'', Arr [op])]])"
    by blast
qed

theorem paths_stay_distinct_witness:
  "distinct (apiPaths (Obj [(''apis'', Arr [])])) \<and>
   addRoutes
     [(Obj [(''path'', Str ''/widgets/:id''), (''verb'', Str ''get''), (''method'', Str ''Widget.findById'')],
       Obj [(''name'', Str ''Widget'')]),
      (Obj [(''path'', Str ''/widgets/:id''), (''verb'', Str ''del''), (''method'', Str ''Widget.deleteById'')],
       Obj [(''name'', Str ''Widget'')]),
      (Obj [(''path'', Str ''/widgets''), (''verb'', Str ''get''), (''method'', Str ''Widget.find'')],
       Obj [(''name'', Str ''Widget'')])]
     (Obj [(''apis'', Arr [])])
   = Some (Obj [(''apis'', Arr
       [Obj [(''path'', Str ''/widgets/{id}''),
          (''operations'', Arr
            [Obj [(''method'', Str ''GET''), (''nickname'', Str ''Widget_findById''),
               (''type'', Str ''void''), (''items'', Str []), (''parameters'', Arr []),
               (''responseMessages'', Arr []), (''summary'', Undefined), (''notes'', Str [])],
             Obj [(''method'', Str ''DELETE''), (''nickname'', Str ''Widget_deleteById''),
               (''type'', Str ''void''), (''items'', Str []), (''parameters'', Arr []),
               (''responseMessages'', Arr []), (''summary'', Undefined), (''notes'', Str [])]])],
        Obj [(''path'', Str ''/widgets''),
          (''operations'', Arr
            [Obj [(''method'', Str ''GET''), (''nickname'', Str ''Widget_find''),
               (''type'', Str ''void''), (''items'', Str []), (''parameters'', Arr []),
               (''responseMessages'', Arr []), (''summary'', Undefined), (''notes'', Str [])]])]])]) \<and>
   apiPaths (Obj [(''apis'', Arr
       [Obj [(''path'', Str ''/widgets/{id}''),
          (''operations'', Arr
            [Obj [(''method'', Str ''GET''), (''nickname'', Str ''Widget_findById''),
               (''type'', Str ''void''), (''items'', Str []), (''parameters'', Arr []),
               (''responseMessages'', Arr []), (''summary'', Undefined), (''notes'', Str [])],
             Obj [(''method'', Str ''DELETE''), (''nickname'', Str ''Widget_deleteById''),
               (''type'', Str ''void''), (''items'', Str []), (''parameters'', Arr []),
               (''responseMessages'', Arr []), (''summary'', Undefined), (''notes'', Str [])]])],
        Obj [(''path'', Str ''/widgets''),
          (''operations'', Arr
            [Obj [(''method'', Str ''GET''), (''nickname'', Str ''Widget_find''),
               (''type'', Str ''void''), (''items'', Str []), (''parameters'', Arr []),
               (''responseMessages'', Arr []), (''summary'', Undefined), (''notes'', Str [])]])]])])
   = [Str ''/widgets/{id}'', Str ''/widgets'']"
proof -
  let ?classDef = "Obj [(''name'', Str ''Widget'')]"
  let ?calls = "[(Obj [(''path'', Str ''/widgets/:id''), (''verb'', Str ''get''), (''method'', Str ''Widget.findById'')], ?classDef),
      (Obj [(''path'', Str ''/widgets/:id''), (''verb'', Str ''del''), (''method'', Str ''Widget.deleteById'')], ?classDef),
      (Obj [(''path'', Str ''/widgets''), (''verb'', Str ''get''), (''method'', Str ''Widget.find'')], ?classDef)]"
  let ?empty = "Obj [(''apis'', Arr [])]"
  let ?final = "Obj [(''apis'', Arr
       [Obj [(''path'', Str ''/widgets/{id}''),
          (''operations'', Arr
            [Obj [(''method'', Str ''GET''), (''nickname'', Str ''Widget_findById''),
               (''type'', Str ''void''), (''items'', Str []), (''parameters'', Arr []),
               (''responseMessages'', Arr []), (''summary'', Undefined), (''notes'', Str [])],
             Obj [(''method'', Str ''DELETE''), (''nickname'', Str ''Widget_deleteById''),
               (''type'', Str ''void''), (''items'', Str []), (''parameters'', Arr []),
               (''responseMessages'', Arr []), (''summary'', Undefined), (''notes'', Str [])]])],
        Obj [(''path'', Str ''/widgets''),
          (''operations'', Arr
            [Obj [(''method'', Str ''GET''), (''nickname'', Str ''Widget_find''),
               (''type'', Str ''void''), (''items'', Str []), (''parameters'', Arr []),
               (''responseMessages'', Arr []), (''summary'', Undefined), (''notes'', Str [])]])]])]"
  have d0: "distinct (apiPaths ?empty)"
    by (simp add: apiPaths_def lookup_def)
  have run: "addRoutes ?calls ?empty = Some ?final"
    by (simp add: addRouteToAPIDeclaration_def addRouteToDoc_def run_defs)
  have paths: "apiPaths ?final = [Str ''/widgets/{id}'', Str ''/widgets'']"
    by (simp add: apiPaths_def lookup_def)
  from paths_stay_distinct[OF d0 run] have "distinct (apiPaths ?final)"
    by (rule conjunct1)
  with d0 run paths show ?thesis by (simp only: simp_thms)
qed

section \<open>Calls that return\<close>

lemma filterM_total:
  "(\<And>x. x \<in> set xs \<Longrightarrow> f x \<noteq> None) \<Longrightarrow> \<exists>ys. filterM f xs = Some ys \<and> set ys \<subseteq> set xs"
proof (induction xs)
  case Nil
  then show ?case by simp
next
  case (Cons x xs)
  then obtain ys where ys: "filterM f xs = Some ys" "set ys \<subseteq> set xs" by auto
  from Cons.prems[of x] obtain b where "f x = Some b" by auto
  with ys show ?case by auto
qed

lemma traverse_total_set:
  assumes "\<And>x. x \<in> set xs \<Longrightarrow> \<exists>y. f x = Some y \<and> P y"
  shows "\<exists>ys. traverse f xs = Some ys \<and> (\<forall>y \<in> set ys. P y)"
  using assms
proof (induction xs)
  case Nil
  then show ?case by simp
next
  case (Cons x xs)
  then obtain ys where ys: "traverse f xs = Some ys" "\<forall>y \<in> set ys. P y" by auto
  from Cons.prems obtain y where "f x = Some y" "P y" by auto
  with ys show ?case by auto
qed

lemma translateKeys_total:
  assumes "v \<noteq> Undefined" and "v \<noteq> Null"
  shows "\<exists>v'. translateKeys v = Some v' \<and> v' \<noteq> Undefined \<and> v' \<noteq> Null"
  using assms by (cases v) simp_all

lemma keepArg_total: "arg \<noteq> Undefined \<Longrightarrow> arg \<noteq> Null \<Longrightarrow> keepArg arg \<noteq> None"
  by (simp add: keepArg_eq)

lemma fixReturnType_total:
  assumes "classDef \<noteq> Undefined" and "classDef \<noteq> Null"
  shows "\<exists>route1. fixReturnType (Obj kvs) classDef = Some route1"
  using assms by (simp add: fixReturnType_def get_Some_field Let_def)

lemma or_empty_Nil_falsy: "or_empty v = Some [] \<Longrightarrow> \<not> truthy (guarded_get0 v)"
  by (cases v) (auto split: if_splits)

lemma fixReturnType_returns:
  assumes "fixReturnType route classDef = Some route1"
    and "or_empty (field route ''returns'') = Some rs"
    and "\<forall>x \<in> set rs. x \<noteq> Undefined \<and> x \<noteq> Null"
  shows "\<exists>rs1. or_empty (field route1 ''returns'') = Some rs1 \<and>
           (\<forall>x \<in> set rs1. x \<noteq> Undefined \<and> x \<noteq> Null)"
proof (cases "\<exists>r rest. field route ''returns'' = Arr (r # rest)")
  case True
  then obtain r rest where ret: "field route ''returns'' = Arr (r # rest)" by blast
  then obtain kvs where "route = Obj kvs" by (cases route) simp_all
  with ret have g: "get route ''returns'' = Some (Arr (r # rest))" by simp
  from ret assms(2) have rs: "rs = r # rest" by simp
  let ?fixed = "if field r ''arg'' = Str ''data'' \<and> field r ''type'' = Str ''object''
           then set_prop r ''type'' (field classDef ''name'')
           else if field r ''arg'' = Str ''data'' \<and> field r ''type'' = Str ''array''
           then set_prop (set_prop r ''type'' (Str ''array'')) ''items''
                  (Obj [(''$ref'', field classDef ''name'')])
           else r"
  from fixReturnType_step[OF g assms(1)]
  have f: "field route1 ''returns'' = Arr (?fixed # rest)" .
  have "?fixed \<noteq> Undefined \<and> ?fixed \<noteq> Null"
    using assms(3) rs by (cases r) auto
  with f assms(3) rs show ?thesis by simp
next
  case False
  with assms(2) have "or_empty (field route ''returns'') = Some []"
    by (cases "field route ''returns''"; cases rs) (auto split: if_splits)
  then have "\<not> truthy (guarded_get0 (field route ''returns''))"
    by (rule or_empty_Nil_falsy)
  with assms(1) have "route1 = route"
    by (auto simp: fixReturnType_def Let_def dest!: get_SomeD split: bind_splits)
  with assms(2,3) show ?thesis by blast
qed

lemma get0_total: "v \<noteq> Undefined \<Longrightarrow> v \<noteq> Null \<Longrightarrow> \<exists>w. get0 v = Some w"
  by (cases v rule: get0.cases) simp_all

lemma parameterOf_total:
  assumes path: "get route ''path'' = Some (Str p)"
    and meth: "get route ''method'' = Some (Str m)"
    and a: "a \<noteq> Undefined" "a \<noteq> Null"
    and ty: "truthy (field a ''model'') \<longrightarrow> field a ''type'' \<noteq> Undefined \<and> field a ''type'' \<noteq> Null"
  shows "\<exists>out. parameterOf route type a = Some out"
proof -
  have "\<exists>out0. parameterBase route type a = Some out0"
    unfolding parameterBase_eq[OF a] path by simp
  then obtain out0 where out0: "parameterBase route type a = Some out0" by blast
  have "\<exists>out1. deriveTypeFromModel route out0 = Some out1"
    by (simp add: deriveTypeFromModel_def meth)
  then obtain out1 where out1: "deriveTypeFromModel route out0 = Some out1" by blast
  have "\<exists>out. attachItems a out1 = Some out"
  proof (cases "field a ''type'' = Undefined \<or> field a ''type'' = Null")
    case True
    with ty have "\<not> truthy (field a ''model'')" by blast
    with True parameterBase_fields(6)[OF out0] have "field out0 ''type'' = Str ''void''"
      by (auto simp: prepareDataType_def)
    with deriveTypeFromModel_fields(2)[OF out1] have "field out1 ''type'' = Str ''void''"
      by simp
    then show ?thesis by (simp add: attachItems_def)
  next
    case False
    with get0_total obtain t0 where "get0 (field a ''type'') = Some t0" by blast
    then show ?thesis
      by (simp add: attachItems_def get_Some_field[OF a])
  qed
  with out0 out1 show ?thesis by (simp add: parameterOf_def)
qed

lemma routeToAPI_total:
  assumes "route = Obj kvs"
    and "lookup kvs ''path'' = Str p" and "lookup kvs ''verb'' = Str v"
    and "lookup kvs ''method'' = Str m"
    and "lookup kvs ''accepts'' = Arr xs"
    and "\<forall>a \<in> set xs. a \<noteq> Undefined \<and> a \<noteq> Null \<and>
           (truthy (field a ''model'') \<longrightarrow> field a ''type'' \<noteq> Undefined \<and> field a ''type'' \<noteq> Null)"
  shows "\<exists>api. routeToAPI route = Some api"
proof -
  let ?type = "if toLowerCase v = ''get'' then ''query'' else ''form''"
  have f: "acceptToParameter route = Some (parameterOf route ?type)"
    by (simp add: acceptToParameter_def assms(1,3))
  have path: "get route ''path'' = Some (Str p)" and meth: "get route ''method'' = Some (Str m)"
    by (simp_all add: assms(1,2,4))
  have "\<exists>ps. traverse (parameterOf route ?type) xs = Some ps"
  proof (rule traverse_total)
    fix a assume "a \<in> set xs"
    with assms(6) have "a \<noteq> Undefined" "a \<noteq> Null"
      "truthy (field a ''model'') \<longrightarrow> field a ''type'' \<noteq> Undefined \<and> field a ''type'' \<noteq> Null"
      by auto
    from parameterOf_total[OF path meth this]
    show "parameterOf route ?type a \<noteq> None" by auto
  qed
  then obtain ps where ps: "traverse (parameterOf route ?type) xs = Some ps" by blast
  show ?thesis
    unfolding routeToAPI_def assms(1) get.simps field.simps assms(2-5) Let_def
    using f ps
    by (simp add: convertPathFragments_def convertVerb_def assms(1))
qed

lemma translateCell_total:
  assumes "snd c \<noteq> Undefined" and "snd c \<noteq> Null"
    and "truthy (field (snd c) ''model'') \<longrightarrow>
           field (snd c) ''type'' \<noteq> Undefined \<and> field (snd c) ''type'' \<noteq> Null"
  shows "\<exists>c'. translateCell c = Some c' \<and> snd c' \<noteq> Undefined \<and> snd c' \<noteq> Null \<and>
           (truthy (field (snd c') ''model'') \<longrightarrow>
              field (snd c') ''type'' \<noteq> Undefined \<and> field (snd c') ''type'' \<noteq> Null)"
proof -
  from translateKeys_total[OF assms(1,2)] obtain v' where
    v': "translateKeys (snd c) = Some v'" "v' \<noteq> Undefined" "v' \<noteq> Null" by blast
  have "field v' ''model'' = field (snd c) ''model''" "field v' ''type'' = field (snd c) ''type''"
    using translateKeys_other[OF v'(1)] keys_free_of_table by simp_all
  with v' assms(3) show ?thesis by (simp add: translateCell_def)
qed

lemma cells_values:
  "snd ` set (map (Pair Route) own @ (if b then concat_arg shared else [])) =
     set own \<union> (if b then set (case shared of Arr ys \<Rightarrow> ys | s \<Rightarrow> [s]) else {})"
proof -
  have "snd ` set (concat_arg shared) = set (map snd (concat_arg shared))"
    by simp
  also have "\<dots> = set (case shared of Arr ys \<Rightarrow> ys | s \<Rightarrow> [s])"
    by (simp only: map_snd_concat_arg)
  finally have 1: "snd ` set (concat_arg shared) = set (case shared of Arr ys \<Rightarrow> ys | s \<Rightarrow> [s])" .
  have 2: "snd ` set (map (Pair Route) own) = set own"
    by (simp add: image_image)
  show ?thesis
    by (cases b) (simp_all only: set_append image_Un 1 2 if_True if_False append_Nil2 Un_empty_right)
qed

lemma doRouteParameterHacks_total:
  assumes route: "route = Obj r"
    and strings: "lookup r ''path'' = Str p" "lookup r ''verb'' = Str v" "lookup r ''method'' = Str m"
    and own: "or_empty (lookup r ''accepts'') = Some own"
    and rs: "or_empty (lookup r ''returns'') = Some rs"
    and rs_ok: "\<forall>x \<in> set rs. x \<noteq> Undefined \<and> x \<noteq> Null"
    and classDef: "classDef \<noteq> Undefined" "classDef \<noteq> Null"
    and args_ok: "\<forall>a \<in> set own \<union>
          (if truthy (sharedCtorAccepts classDef)
           then set (case sharedCtorAccepts classDef of Arr ys \<Rightarrow> ys | s \<Rightarrow> [s]) else {}).
        a \<noteq> Undefined \<and> a \<noteq> Null \<and>
        (truthy (field a ''model'') \<longrightarrow> field a ''type'' \<noteq> Undefined \<and> field a ''type'' \<noteq> Null)"
  shows "\<exists>r' classDef' xs. doRouteParameterHacks route classDef = Some (Obj r', classDef') \<and>
           lookup r' ''path'' = Str p \<and> lookup r' ''verb'' = Str v \<and>
           lookup r' ''method'' = Str m \<and> lookup r' ''accepts'' = Arr xs \<and>
           (\<forall>a \<in> set xs. a \<noteq> Undefined \<and> a \<noteq> Null \<and>
              (truthy (field a ''model'') \<longrightarrow>
                 field a ''type'' \<noteq> Undefined \<and> field a ''type'' \<noteq> Null))"
proof -
  let ?ok = "\<lambda>a. a \<noteq> Undefined \<and> a \<noteq> Null \<and>
        (truthy (field a ''model'') \<longrightarrow> field a ''type'' \<noteq> Undefined \<and> field a ''type'' \<noteq> Null)"
  let ?cells = "map (Pair Route) own @
           (if truthy (sharedCtorAccepts classDef) \<and> length (split CHR ''.'' m) > 2
            then concat_arg (sharedCtorAccepts classDef) else [])"
  have cells: "acceptsWithSharedCtor route classDef = Some ?cells"
    by (simp add: acceptsWithSharedCtor_def route strings own Let_def)
  have cells_ok: "\<forall>c \<in> set ?cells. ?ok (snd c)"
  proof
    fix c assume "c \<in> set ?cells"
    then have "snd c \<in> snd ` set ?cells" by (rule imageI)
    then have "snd c \<in> set own \<union>
          (if truthy (sharedCtorAccepts classDef) \<and> length (split CHR ''.'' m) > 2
           then set (case sharedCtorAccepts classDef of Arr ys \<Rightarrow> ys | s \<Rightarrow> [s]) else {})"
      unfolding cells_values .
    then have "snd c \<in> set own \<union>
          (if truthy (sharedCtorAccepts classDef)
           then set (case sharedCtorAccepts classDef of Arr ys \<Rightarrow> ys | s \<Rightarrow> [s]) else {})"
      by (cases "truthy (sharedCtorAccepts classDef)"; cases "length (split CHR ''.'' m) > 2") simp_all
    with args_ok show "?ok (snd c)" by blast
  qed
  have "\<exists>kept. filterM (\<lambda>c. keepArg (snd c)) ?cells = Some kept \<and> set kept \<subseteq> set ?cells"
    by (rule filterM_total) (use cells_ok keepArg_total in blast)
  then obtain kept where kept: "filterM (\<lambda>c. keepArg (snd c)) ?cells = Some kept"
    and kept_sub: "set kept \<subseteq> set ?cells" by blast
  let ?route0 = "set_prop route ''accepts'' (Arr (map snd kept))"
  obtain r0 where r0: "?route0 = Obj r0" unfolding route by simp
  from fixReturnType_total[OF classDef, of r0] obtain route1 where
    route1: "fixReturnType ?route0 classDef = Some route1" unfolding r0 by blast
  from fixReturnType_fields(2)[OF route1 r0] obtain r1 where r1: "route1 = Obj r1" by blast
  have keep1: "k \<noteq> ''returns'' \<Longrightarrow> field route1 k = field ?route0 k" for k
    using fixReturnType_fields(1)[OF route1] .
  have "\<exists>translated. traverse translateCell kept = Some translated \<and>
          (\<forall>c' \<in> set translated. ?ok (snd c'))"
  proof (rule traverse_total_set)
    fix c assume "c \<in> set kept"
    with kept_sub cells_ok have "?ok (snd c)" by blast
    then show "\<exists>c'. translateCell c = Some c' \<and> ?ok (snd c')"
      using translateCell_total[of c] by blast
  qed
  then obtain translated where translated: "traverse translateCell kept = Some translated"
    and translated_ok: "\<forall>c' \<in> set translated. ?ok (snd c')" by blast
  have "or_empty (field ?route0 ''returns'') = Some rs"
    unfolding route using rs by (simp add: lookup_update)
  from fixReturnType_returns[OF route1 this rs_ok] obtain rs1 where
    rs1: "or_empty (field route1 ''returns'') = Some rs1"
    and rs1_ok: "\<forall>x \<in> set rs1. x \<noteq> Undefined \<and> x \<noteq> Null" by blast
  have "\<exists>returns'. traverse translateKeys rs1 = Some returns'"
    by (rule traverse_total) (use rs1_ok translateKeys_total in fastforce)
  then obtain returns' where returns': "traverse translateKeys rs1 = Some returns'" by blast
  let ?route' = "set_prop (set_prop route1 ''accepts'' (Arr (map snd translated))) ''returns'' (Arr returns')"
  have g: "get (set_prop route1 ''accepts'' (Arr (map snd translated))) ''returns''
             = Some (field route1 ''returns'')"
    unfolding r1 by (simp add: lookup_update)
  have run: "doRouteParameterHacks route classDef = Some (?route', fold writeBack translated classDef)"
    unfolding doRouteParameterHacks_def cloneDeep_def Let_def
    by (simp add: cells kept route1 translated g rs1 returns' del: set_prop.simps)
  obtain r' where r': "?route' = Obj r'" unfolding r1 by simp
  have f: "field ?route' k = field route k" if "k \<noteq> ''returns''" "k \<noteq> ''accepts''" for k
    using that keep1[of k] by (simp add: field_set_prop_other)
  have "field ?route' ''path'' = Str p" "field ?route' ''verb'' = Str v"
    "field ?route' ''method'' = Str m"
    using f strings unfolding route by simp_all
  moreover have "field ?route' ''accepts'' = Arr (map snd translated)"
    unfolding r1 by (simp add: lookup_update)
  moreover have "\<forall>a \<in> set (map snd translated). ?ok a"
    using translated_ok by auto
  ultimately show ?thesis
    using run unfolding r' by (auto simp del: set_prop.simps)
qed

lemma addRouteToDoc_total:
  assumes api: "routeToAPI route = Some api"
    and apis: "get doc ''apis'' = Some (Arr existing)"
    and existing: "\<forall>e \<in> set existing. e \<noteq> Undefined \<and> e \<noteq> Null \<and>
                     (\<exists>ops. field e ''operations'' = Arr ops)"
  shows "\<exists>doc'. addRouteToDoc route doc = Some doc'"
proof -
  from routeToAPI_shape[OF api] obtain p op where
    shape: "api = Obj [(''path'', Str p), (''operations'', Arr [op])]" by blast
  have op: "get0 (field api ''operations'') = Some op"
    unfolding shape by (simp add: lookup_def)
  have "\<exists>paths. traverse (\<lambda>existingAPI. get existingAPI ''path'') existing = Some paths"
    by (rule traverse_total) (use existing in \<open>simp add: get_field\<close>)
  then obtain paths where
    paths: "traverse (\<lambda>existingAPI. get existingAPI ''path'') existing = Some paths" by blast
  let ?same = "\<lambda>existingAPI. field existingAPI ''path'' = field api ''path''"
  show ?thesis
  proof (cases "filter ?same existing")
    case Nil
    then show ?thesis
      by (simp add: addRouteToDoc_def api op apis paths Let_def)
  next
    case (Cons m ms)
    then have "m \<in> set (filter ?same existing)" by simp
    then have "m \<in> set existing" by simp
    with existing obtain ops where "field m ''operations'' = Arr ops" by blast
    with Cons show ?thesis
      by (simp add: addRouteToDoc_def api op apis paths Let_def)
  qed
qed

text \<open>
  Where the code does return. The route is an object with a string for its path, verb
  and method; its \<open>accepts\<close> and \<open>returns\<close> are arrays or missing; no entry of
  \<open>returns\<close> and no accepted argument (of the route or of the shared constructor) is
  \<open>undefined\<close> or \<open>null\<close>; the class is there; every API of the document is an
  object with an array of operations. Then the call returns, provided every accepted
  argument that names a model also has a type.
\<close>

lemma returns_on_plain_input:
  assumes route: "route = Obj r"
    and strings: "lookup r ''path'' = Str p" "lookup r ''verb'' = Str v" "lookup r ''method'' = Str m"
    and own: "or_empty (lookup r ''accepts'') = Some own"
    and rs: "or_empty (lookup r ''returns'') = Some rs"
    and rs_ok: "\<forall>x \<in> set rs. x \<noteq> Undefined \<and> x \<noteq> Null"
    and classDef: "classDef \<noteq> Undefined" "classDef \<noteq> Null"
    and args_ok: "\<forall>a \<in> set own \<union>
          (if truthy (sharedCtorAccepts classDef)
           then set (case sharedCtorAccepts classDef of Arr ys \<Rightarrow> ys | s \<Rightarrow> [s]) else {}).
        a \<noteq> Undefined \<and> a \<noteq> Null \<and>
        (truthy (field a ''model'') \<longrightarrow> field a ''type'' \<noteq> Undefined \<and> field a ''type'' \<noteq> Null)"
    and apis: "get doc ''apis'' = Some (Arr existing)"
    and existing: "\<forall>e \<in> set existing. e \<noteq> Undefined \<and> e \<noteq> Null \<and>
                     (\<exists>ops. field e ''operations'' = Arr ops)"
  shows "\<exists>classDef' doc'. addRouteToAPIDeclaration route classDef doc = Some (classDef', doc')"
proof -
  from doRouteParameterHacks_total[OF route strings own rs rs_ok classDef args_ok]
  obtain r' classDef' xs where
    hacks: "doRouteParameterHacks route classDef = Some (Obj r', classDef')"
    and s': "lookup r' ''path'' = Str p" "lookup r' ''verb'' = Str v" "lookup r' ''method'' = Str m"
    and acc: "lookup r' ''accepts'' = Arr xs"
    and xs: "\<forall>a \<in> set xs. a \<noteq> Undefined \<and> a \<noteq> Null \<and>
              (truthy (field a ''model'') \<longrightarrow>
                 field a ''type'' \<noteq> Undefined \<and> field a ''type'' \<noteq> Null)"
    by (elim exE conjE) (rule that; assumption)
  from routeToAPI_total[OF refl s' acc xs] obtain api where
    api: "routeToAPI (Obj r') = Some api" by blast
  from addRouteToDoc_total[OF api apis existing] obtain doc' where
    "addRouteToDoc (Obj r') doc = Some doc'" by blast
  with hacks show ?thesis
    by (simp add: addRouteToAPIDeclaration_def)
qed

section \<open>Calls that raise, and what a call writes to\<close>

text \<open>
  C1. The specification says that no call raises, whatever optional fields are missing.
  The code raises a \<open>TypeError\<close> on two such inputs. An accepted argument that names a model
  \<open>array\<close> and has no \<open>type\<close> gets the type \<open>array\<close> from its model, and line
  196 then reads \<open>accepts.type[0]\<close> of an \<open>undefined\<close> type. And with no class
  (which the guard of line 69 allows for), a first return entry for \<open>data\<close> of type
  \<open>object\<close> makes line 88 read \<open>classDef.name\<close> of \<open>undefined\<close>.
\<close>

theorem missing_field_raises:
  "addRouteToAPIDeclaration
     (Obj [(''path'', Str ''/widgets''), (''verb'', Str ''post''), (''method'', Str ''Widget.create''),
           (''accepts'', Arr [Obj [(''arg'', Str ''tags''), (''model'', Str ''array'')]])])
     (Obj [(''name'', Str ''Widget'')])
     (Obj [(''apis'', Arr [])]) = None \<and>
   addRouteToAPIDeclaration
     (Obj [(''path'', Str ''/widgets''), (''verb'', Str ''get''), (''method'', Str ''Widget.find''),
           (''returns'', Arr [Obj [(''arg'', Str ''data''), (''type'', Str ''object'')]])])
     Undefined
     (Obj [(''apis'', Arr [])]) = None"
  by (simp add: addRouteToAPIDeclaration_def addRouteToDoc_def run_defs)

text \<open>
  Those two reads are the only ones that stand in the way (lemma
  \<open>returns_on_plain_input\<close>). Where the fields are only missing, the call does
  return: with no \<open>accepts\<close>, no \<open>returns\<close>, no \<open>description\<close> and no class
  at all, the operation has type \<open>void\<close> and no parameters.
\<close>

lemma absent_fields_degrade:
  "addRouteToAPIDeclaration
     (Obj [(''path'', Str ''/widgets''), (''verb'', Str ''get''), (''method'', Str ''Widget.find'')])
     Undefined
     (Obj [(''apis'', Arr [])])
   = Some (Undefined,
      Obj [(''apis'', Arr [Obj [(''path'', Str ''/widgets''),
        (''operations'', Arr [Obj
           [(''method'', Str ''GET''), (''nickname'', Str ''Widget_find''),
            (''type'', Str ''void''), (''items'', Str []), (''parameters'', Arr []),
            (''responseMessages'', Arr []), (''summary'', Undefined), (''notes'', Str [])]])]])])"
  by (simp add: addRouteToAPIDeclaration_def addRouteToDoc_def run_defs)

text \<open>
  C2. The specification says that a call writes to nothing but the document. The code
  copies the route, but \<open>concat\<close> puts the class's own argument objects into the copy's list, and
  \<open>translateKeys\<close> then rewrites them in place: after a call for a method with three
  segments, the argument of the shared constructor has lost \<open>doc\<close> and gained
  \<open>description\<close> in \<open>classDef\<close> itself.
\<close>

theorem sharedCtor_argument_rewritten:
  "addRouteToAPIDeclaration
     (Obj [(''path'', Str ''/widgets/:id/name''), (''verb'', Str ''get''),
           (''method'', Str ''Widget.prototype.getName'')])
     (Obj [(''name'', Str ''Widget''),
           (''sharedCtor'', Obj [(''accepts'', Arr [Obj [(''arg'', Str ''id''), (''doc'', Str ''the id'')]])])])
     (Obj [(''apis'', Arr [])])
   = Some
      (Obj [(''name'', Str ''Widget''),
            (''sharedCtor'', Obj [(''accepts'', Arr [Obj [(''arg'', Str ''id''), (''description'', Str ''the id'')]])])],
       Obj [(''apis'', Arr [Obj [(''path'', Str ''/widgets/{id}/name''),
        (''operations'', Arr [Obj
           [(''method'', Str ''GET''), (''nickname'', Str ''Widget_prototype_getName''),
            (''type'', Str ''void''), (''items'', Str []),
            (''parameters'', Arr
               [Obj [(''paramType'', Str ''path''), (''name'', Str ''id''),
                     (''description'', Str ''the id''), (''type'', Str ''void''),
                     (''required'', Bool False), (''defaultValue'', Undefined),
                     (''minimum'', Undefined), (''maximum'', Undefined),
                     (''allowMultiple'', Bool False)]]),
            (''responseMessages'', Arr []), (''summary'', Undefined), (''notes'', Str [])]])]])])"
  by (simp add: addRouteToAPIDeclaration_def addRouteToDoc_def run_defs)

end
